theory Spec2Isabelle
  imports Main "HOL-Library.Monad_Syntax"
begin

section \<open>Strings of the source language\<close>

text \<open>
  A JavaScript string is a sequence of UTF-16 code units. The scanners below only compare
  code units with each other and never compute with them, so a code unit is a natural
  number and every theorem about all \<open>jsstring\<close> values covers every real string.
  \<open>str\<close> turns an ASCII literal of the theory into such a string.
\<close>

type_synonym code_unit = nat
type_synonym jsstring = "code_unit list"

abbreviation str :: "string \<Rightarrow> jsstring" where
  "str cs \<equiv> map of_char cs"

text \<open>The line terminators of ECMAScript: LF, CR, U+2028, U+2029 (what \<open>.\<close> refuses
  and where \<open>$\<close> matches under the \<open>m\<close> flag).\<close>

definition isLineTerminator :: "code_unit \<Rightarrow> bool" where
  "isLineTerminator c \<longleftrightarrow> c = 10 \<or> c = 13 \<or> c = 8232 \<or> c = 8233"

section \<open>solidity-parser.ts: the comment normalizer\<close>

text \<open>\<^verbatim>\<open>const preserveNewlines = (s) => s.replace(/[^\n]/g, ' ');\<close>\<close>

definition preserveNewlines :: "jsstring \<Rightarrow> jsstring" where
  "preserveNewlines s = map (\<lambda>c. if c = 10 then 10 else 32) s"

text \<open>
  The lazy \<^verbatim>\<open>[\s\S]*?\*\/\<close>: the number of code units up to and including the first
  \<^verbatim>\<open>*/\<close> of the text, if there is one.
\<close>

fun findStarSlash :: "jsstring \<Rightarrow> nat option" where
  "findStarSlash (a # b # cs) =
     (if a = 42 \<and> b = 47 then Some 2 else map_option Suc (findStarSlash (b # cs)))"
| "findStarSlash _ = None"

text \<open>\<^verbatim>\<open>/\/\*[\s\S]*?\*\//\<close> tried at the head of the text: the length of the match.\<close>

definition matchBlockComment :: "jsstring \<Rightarrow> nat option" where
  "matchBlockComment s =
     (case s of
        a # b # cs \<Rightarrow>
          if a = 47 \<and> b = 42 then map_option (\<lambda>n. 2 + n) (findStarSlash cs) else None
      | _ \<Rightarrow> None)"

text \<open>
  \<^verbatim>\<open>/\/\/.*$/m\<close> tried at the head of the text: \<open>.\<close> takes every code unit that is
  no line terminator, and \<open>$\<close> then holds, the next position being a line terminator
  or the end of the text.
\<close>

definition matchLineComment :: "jsstring \<Rightarrow> nat option" where
  "matchLineComment s =
     (case s of
        a # b # cs \<Rightarrow>
          if a = 47 \<and> b = 47
          then Some (2 + length (takeWhile (\<lambda>c. \<not> isLineTerminator c) cs))
          else None
      | _ \<Rightarrow> None)"

text \<open>
  \<^verbatim>\<open>source.replace(re, (m) => f(m))\<close> for a global pattern: scan from the left, replace
  each match by \<open>f\<close> of the matched text and go on behind it. Neither pattern of
  \<open>stripComments\<close> matches the empty string; a match of length 0 is stepped over.
\<close>

function replaceAll ::
  "(jsstring \<Rightarrow> nat option) \<Rightarrow> (jsstring \<Rightarrow> jsstring) \<Rightarrow> jsstring \<Rightarrow> jsstring" where
  "replaceAll m f [] = []"
| "replaceAll m f (c # cs) =
     (case m (c # cs) of
        None \<Rightarrow> c # replaceAll m f cs
      | Some n \<Rightarrow>
          if n = 0 then c # replaceAll m f cs
          else f (take n (c # cs)) @ replaceAll m f (drop n (c # cs)))"
  by pat_completeness auto
termination
  by (relation "measure (\<lambda>(m, f, s). length s)") auto

definition stripComments :: "jsstring \<Rightarrow> jsstring" where
  "stripComments source =
     replaceAll matchLineComment preserveNewlines
       (replaceAll matchBlockComment preserveNewlines source)"


section \<open>Regular-expression building blocks\<close>

text \<open>\<^verbatim>\<open>\s\<close> (and what \<^verbatim>\<open>trim\<close> removes): the white space and line terminators of
  ECMAScript.\<close>

definition isSpace :: "code_unit \<Rightarrow> bool" where
  "isSpace c \<longleftrightarrow>
     c = 9 \<or> c = 10 \<or> c = 11 \<or> c = 12 \<or> c = 13 \<or> c = 32 \<or> c = 160 \<or> c = 5760
     \<or> (8192 \<le> c \<and> c \<le> 8202) \<or> c = 8232 \<or> c = 8233 \<or> c = 8239 \<or> c = 8287
     \<or> c = 12288 \<or> c = 65279"

text \<open>\<^verbatim>\<open>[A-Za-z_]\<close> and \<^verbatim>\<open>[A-Za-z0-9_]\<close>; the second is also \<^verbatim>\<open>\w\<close>.\<close>

definition isIdentStart :: "code_unit \<Rightarrow> bool" where
  "isIdentStart c \<longleftrightarrow> (65 \<le> c \<and> c \<le> 90) \<or> c = 95 \<or> (97 \<le> c \<and> c \<le> 122)"

definition isWordChar :: "code_unit \<Rightarrow> bool" where
  "isWordChar c \<longleftrightarrow> isIdentStart c \<or> (48 \<le> c \<and> c \<le> 57)"

text \<open>\<^verbatim>\<open>\b\<close> between the code unit before the position (none at the start of the text)
  and the text from the position on.\<close>

definition wordBoundary :: "code_unit option \<Rightarrow> jsstring \<Rightarrow> bool" where
  "wordBoundary prev s \<longleftrightarrow>
     (case prev of None \<Rightarrow> False | Some p \<Rightarrow> isWordChar p)
       \<noteq> (case s of [] \<Rightarrow> False | c # _ \<Rightarrow> isWordChar c)"

text \<open>A literal word at the head of the text: the text behind it.\<close>

definition lit :: "string \<Rightarrow> jsstring \<Rightarrow> jsstring option" where
  "lit w s = (if take (length w) s = str w then Some (drop (length w) s) else None)"

text \<open>\<^verbatim>\<open>\s*\<close> and \<^verbatim>\<open>\s+\<close>, greedy: the text behind the white space.\<close>

definition spaces0 :: "jsstring \<Rightarrow> jsstring" where
  "spaces0 s = dropWhile isSpace s"

definition spaces1 :: "jsstring \<Rightarrow> jsstring option" where
  "spaces1 s = (case s of [] \<Rightarrow> None | c # cs \<Rightarrow> if isSpace c then Some (spaces0 cs) else None)"

text \<open>\<^verbatim>\<open>([A-Za-z_][A-Za-z0-9_]*)\<close>, greedy: the name and the text behind it.\<close>

definition ident :: "jsstring \<Rightarrow> (jsstring \<times> jsstring) option" where
  "ident s =
     (case s of
        [] \<Rightarrow> None
      | c # cs \<Rightarrow>
          if isIdentStart c then Some (c # takeWhile isWordChar cs, dropWhile isWordChar cs)
          else None)"

text \<open>\<^verbatim>\<open>\([^)]*\)\<close>: the text behind the first closing parenthesis.\<close>

definition parens :: "jsstring \<Rightarrow> jsstring option" where
  "parens s =
     (case s of
        [] \<Rightarrow> None
      | c # cs \<Rightarrow>
          if c = 40 then (case dropWhile (\<lambda>x. x \<noteq> 41) cs of [] \<Rightarrow> None | _ # r \<Rightarrow> Some r)
          else None)"

text \<open>\<^verbatim>\<open>[^\{;]\<close>.\<close>

definition notBraceSemi :: "code_unit \<Rightarrow> bool" where
  "notBraceSemi c \<longleftrightarrow> c \<noteq> 123 \<and> c \<noteq> 59"

text \<open>
  \<^verbatim>\<open>content.matchAll(re)\<close> for a global pattern, and the loop
  \<^verbatim>\<open>while ((match = re.exec(content)) !== null)\<close>: the matches from the left, each with
  its index, the scan going on behind each match. A pattern is given the code unit before
  the position (for \<^verbatim>\<open>\b\<close>) and the text from the position on, and returns the length
  of its match and its groups. No pattern of the extractors matches the empty string; a
  match of length 0 moves the scan one code unit on, as \<^verbatim>\<open>lastIndex\<close> does.
\<close>

function matchAllFrom ::
  "(code_unit option \<Rightarrow> jsstring \<Rightarrow> (nat \<times> 'g) option) \<Rightarrow> nat \<Rightarrow> code_unit option \<Rightarrow> jsstring
     \<Rightarrow> (nat \<times> 'g) list" where
  "matchAllFrom m i prev [] = []"
| "matchAllFrom m i prev (c # cs) =
     (case m prev (c # cs) of
        None \<Rightarrow> matchAllFrom m (i + 1) (Some c) cs
      | Some (n, g) \<Rightarrow>
          if n = 0 then (i, g) # matchAllFrom m (i + 1) (Some c) cs
          else (i, g) # matchAllFrom m (i + n) (Some (last (take n (c # cs)))) (drop n (c # cs)))"
  by pat_completeness auto
termination
  by (relation "measure (\<lambda>(m, i, prev, s). length s)") auto

definition matchAll ::
  "(code_unit option \<Rightarrow> jsstring \<Rightarrow> (nat \<times> 'g) option) \<Rightarrow> jsstring \<Rightarrow> (nat \<times> 'g) list" where
  "matchAll m s = matchAllFrom m 0 None s"

text \<open>\<^verbatim>\<open>s.match(re)\<close> without the \<open>g\<close> flag: the leftmost match.\<close>

definition firstMatch ::
  "(code_unit option \<Rightarrow> jsstring \<Rightarrow> (nat \<times> 'g) option) \<Rightarrow> jsstring \<Rightarrow> (nat \<times> 'g) option" where
  "firstMatch m s = (case matchAll m s of [] \<Rightarrow> None | x # _ \<Rightarrow> Some x)"

text \<open>\<^verbatim>\<open>re.test(s)\<close>.\<close>

definition test :: "(code_unit option \<Rightarrow> jsstring \<Rightarrow> (nat \<times> 'g) option) \<Rightarrow> jsstring \<Rightarrow> bool" where
  "test m s \<longleftrightarrow> firstMatch m s \<noteq> None"

text \<open>\<^verbatim>\<open>s.trim()\<close>.\<close>

definition trim :: "jsstring \<Rightarrow> jsstring" where
  "trim s = rev (dropWhile isSpace (rev (dropWhile isSpace s)))"

text \<open>\<^verbatim>\<open>s.split(',')\<close> for a one-unit separator: never an empty list.\<close>

fun splitOn :: "code_unit \<Rightarrow> jsstring \<Rightarrow> jsstring list" where
  "splitOn sep [] = [[]]"
| "splitOn sep (c # cs) =
     (if c = sep then [] # splitOn sep cs
      else (case splitOn sep cs of [] \<Rightarrow> [[c]] | p # ps \<Rightarrow> (c # p) # ps))"

text \<open>\<^verbatim>\<open>s.slice(a, b)\<close>, a negative index counting from the end.\<close>

definition sliceIndex :: "nat \<Rightarrow> int \<Rightarrow> nat" where
  "sliceIndex len k = (if k < 0 then nat (max (int len + k) 0) else min (nat k) len)"

definition slice :: "jsstring \<Rightarrow> int \<Rightarrow> int \<Rightarrow> jsstring" where
  "slice s a b =
     (let lo = sliceIndex (length s) a; hi = sliceIndex (length s) b
      in take (hi - lo) (drop lo s))"

text \<open>\<^verbatim>\<open>content.indexOf('{', start)\<close>: \<open>-1\<close> when there is none.\<close>

fun indexFrom :: "code_unit \<Rightarrow> nat \<Rightarrow> jsstring \<Rightarrow> int" where
  "indexFrom ch i [] = - 1"
| "indexFrom ch i (c # cs) = (if c = ch then int i else indexFrom ch (i + 1) cs)"

definition indexOf :: "jsstring \<Rightarrow> code_unit \<Rightarrow> nat \<Rightarrow> int" where
  "indexOf s ch start = indexFrom ch start (drop start s)"

section \<open>solidity-parser.ts: the extractor\<close>

text \<open>
  Modelled from the spec: \<^verbatim>\<open>generateId\<close> of \<^verbatim>\<open>lib/utils.js\<close>, which is not among the
  sources. The spec (4.2) has it pure, total and collision-resistant, the id being a
  function of the label and of the name it is given: the id is the pair of the two.
\<close>

datatype node_id = NodeId jsstring jsstring

definition generateId :: "jsstring \<Rightarrow> jsstring \<Rightarrow> node_id" where
  "generateId label name = NodeId label name"

record SolidityDefinition =
  label :: jsstring
  name :: jsstring
  startLine :: nat
  endLine :: nat
  isExported :: bool

record SolidityCall =
  calledName :: jsstring
  sourceId :: node_id

datatype heritage_kind = extends | implements

record SolidityHeritage =
  className :: jsstring
  parentName :: jsstring
  kind :: heritage_kind

text \<open>The definitions of \<^verbatim>\<open>extractSolidityFeatures\<close> carry an \<^verbatim>\<open>id\<close> besides.\<close>

record SolidityDefinitionWithId = SolidityDefinition +
  defId :: node_id

record 'd SolidityExtractionResult =
  definitions :: "'d list"
  imports' :: "jsstring list"
  calls :: "SolidityCall list"
  heritage :: "SolidityHeritage list"

record BlockRegion =
  regionName :: jsstring
  regionSourceId :: node_id
  regionStart :: int
  regionEnd :: int

text \<open>The locals of \<^verbatim>\<open>extractSolidityArtifacts\<close>: the four result lists, \<^verbatim>\<open>seenDefs\<close>
  (a key \<^verbatim>\<open>label:name:startIdx\<close> is the triple of its parts) and \<^verbatim>\<open>blockRegions\<close>.\<close>

record ExtractionState = "SolidityDefinition SolidityExtractionResult" +
  seenDefs :: "(jsstring \<times> jsstring \<times> nat) set"
  blockRegions :: "BlockRegion list"

definition CALL_KEYWORDS :: "jsstring list" where
  "CALL_KEYWORDS = map str
     [''if'', ''for'', ''while'', ''require'', ''assert'', ''revert'', ''emit'', ''return'', ''new'',
      ''mapping'', ''payable'', ''unchecked'', ''delete'']"

definition lineOf :: "jsstring \<Rightarrow> int \<Rightarrow> nat" where
  "lineOf source index = length (filter (\<lambda>c. c = 10) (take (nat index) source))"

text \<open>The loop of \<^verbatim>\<open>findBlockEnd\<close> from index \<open>i\<close> on, \<open>depth\<close> being the count so
  far: the index of the closing brace that brings the depth to zero.\<close>

fun scanBraces :: "int \<Rightarrow> nat \<Rightarrow> jsstring \<Rightarrow> nat option" where
  "scanBraces depth i [] = None"
| "scanBraces depth i (ch # cs) =
     (if ch = 123 then scanBraces (depth + 1) (i + 1) cs
      else if ch = 125 then
        (if depth - 1 = 0 then Some i else scanBraces (depth - 1) (i + 1) cs)
      else scanBraces depth (i + 1) cs)"

definition findBlockEnd :: "jsstring \<Rightarrow> nat \<Rightarrow> int" where
  "findBlockEnd source openBraceIndex =
     (case scanBraces 0 openBraceIndex (drop openBraceIndex source) of
        Some i \<Rightarrow> int i
      | None \<Rightarrow> int (length source) - 1)"

definition addDef ::
  "jsstring \<Rightarrow> jsstring \<Rightarrow> jsstring \<Rightarrow> nat \<Rightarrow> bool \<Rightarrow> int \<Rightarrow> ExtractionState \<Rightarrow> ExtractionState" where
  "addDef content lbl nm startIdx exported endIdx st =
     (if (lbl, nm, startIdx) \<in> seenDefs st then st
      else st\<lparr>seenDefs := insert (lbl, nm, startIdx) (seenDefs st),
              definitions := definitions st @
                [\<lparr>label = lbl, name = nm, startLine = lineOf content (int startIdx),
                  endLine = lineOf content endIdx, isExported = exported\<rparr>]\<rparr>)"

text \<open>\<^verbatim>\<open>["']([^"']+)["']\s*;\<close>: the path and the text behind the semicolon.\<close>

definition isQuote :: "code_unit \<Rightarrow> bool" where
  "isQuote c \<longleftrightarrow> c = 34 \<or> c = 39"

definition quotedPath :: "jsstring \<Rightarrow> (jsstring \<times> jsstring) option" where
  "quotedPath s =
     (case s of
        [] \<Rightarrow> None
      | q # cs \<Rightarrow>
          if \<not> isQuote q then None
          else (let path = takeWhile (\<lambda>c. \<not> isQuote c) cs in
                if path = [] then None
                else (case dropWhile (\<lambda>c. \<not> isQuote c) cs of
                        [] \<Rightarrow> None
                      | _ # r \<Rightarrow> map_option (\<lambda>r'. (path, r')) (lit '';'' (spaces0 r)))))"

text \<open>\<^verbatim>\<open>from\s+["']([^"']+)["']\s*;\<close> at the head of the text.\<close>

definition fromClause :: "jsstring \<Rightarrow> (jsstring \<times> jsstring) option" where
  "fromClause s = do { r \<leftarrow> lit ''from'' s; r' \<leftarrow> spaces1 r; quotedPath r' }"

text \<open>The lazy \<^verbatim>\<open>[^;]*?\<close> before \<^verbatim>\<open>from\<close>: it grows one unit at a time, never over a
  semicolon, until the rest of the pattern matches.\<close>

fun lazyFrom :: "jsstring \<Rightarrow> (jsstring \<times> jsstring) option" where
  "lazyFrom [] = None"
| "lazyFrom (c # cs) =
     (case fromClause (c # cs) of
        Some r \<Rightarrow> Some r
      | None \<Rightarrow> if c = 59 then None else lazyFrom cs)"

text \<open>\<^verbatim>\<open>/\bimport\s+(?:[^;]*?from\s+)?["']([^"']+)["']\s*;/g\<close>\<close>

definition importRe :: "code_unit option \<Rightarrow> jsstring \<Rightarrow> (nat \<times> jsstring) option" where
  "importRe prev s =
     (if wordBoundary prev s then
        do {
          r \<leftarrow> lit ''import'' s;
          r' \<leftarrow> spaces1 r;
          (path, rest) \<leftarrow> (case lazyFrom r' of Some x \<Rightarrow> Some x | None \<Rightarrow> quotedPath r');
          Some (length s - length rest, path)
        }
      else None)"

text \<open>The alternatives \<^verbatim>\<open>(abstract\s+contract|contract|interface|library)\<close> in their
  order: the matched text and the text behind it.\<close>

definition contractKind :: "jsstring \<Rightarrow> (jsstring \<times> jsstring) option" where
  "contractKind s =
     (case do { r \<leftarrow> lit ''abstract'' s; r' \<leftarrow> spaces1 r; lit ''contract'' r' } of
        Some r \<Rightarrow> Some (take (length s - length r) s, r)
      | None \<Rightarrow>
          (case lit ''contract'' s of
             Some r \<Rightarrow> Some (str ''contract'', r)
           | None \<Rightarrow>
               (case lit ''interface'' s of
                  Some r \<Rightarrow> Some (str ''interface'', r)
                | None \<Rightarrow> map_option (\<lambda>r. (str ''library'', r)) (lit ''library'' s))))"

text \<open>\<^verbatim>\<open>/\b(abstract\s+contract|contract|interface|library)\s+([A-Za-z_][A-Za-z0-9_]*)\b([^\{;]*)/g\<close>:
  the name is taken greedily, so \<^verbatim>\<open>\b\<close> holds behind it.\<close>

definition contractLikeRe ::
  "code_unit option \<Rightarrow> jsstring \<Rightarrow> (nat \<times> jsstring \<times> jsstring \<times> jsstring) option" where
  "contractLikeRe prev s =
     (if wordBoundary prev s then
        do {
          (knd, r) \<leftarrow> contractKind s;
          r' \<leftarrow> spaces1 r;
          (nm, r'') \<leftarrow> ident r';
          let suffix = takeWhile notBraceSemi r'';
          Some (length s - length r'' + length suffix, knd, nm, suffix)
        }
      else None)"

text \<open>\<^verbatim>\<open>/\bis\s+([^\{;]+)/\<close>. When nothing follows the white space, \<^verbatim>\<open>\s+\<close> gives its
  last unit back to the group.\<close>

definition isRe :: "code_unit option \<Rightarrow> jsstring \<Rightarrow> (nat \<times> jsstring) option" where
  "isRe prev s =
     (if wordBoundary prev s then
        (case lit ''is'' s of
           None \<Rightarrow> None
         | Some r \<Rightarrow>
             (let ws = takeWhile isSpace r; g = takeWhile notBraceSemi (dropWhile isSpace r) in
              if ws = [] then None
              else if g \<noteq> [] then Some (2 + length ws + length g, g)
              else if 2 \<le> length ws then Some (2 + length ws, [last ws])
              else None))
      else None)"

text \<open>\<^verbatim>\<open>s.replace(/\s+/g, ' ')\<close>\<close>

function collapseSpaces :: "jsstring \<Rightarrow> jsstring" where
  "collapseSpaces [] = []"
| "collapseSpaces (c # cs) =
     (if isSpace c then 32 # collapseSpaces (dropWhile isSpace cs) else c # collapseSpaces cs)"
  by pat_completeness auto
termination
  by (relation "measure length") (auto simp: length_dropWhile_le less_Suc_eq_le)

text \<open>\<^verbatim>\<open>s.includes(w)\<close>\<close>

fun includesStr :: "jsstring \<Rightarrow> jsstring \<Rightarrow> bool" where
  "includesStr [] w = (w = [])"
| "includesStr (c # cs) w = (take (length w) (c # cs) = w \<or> includesStr cs w)"

text \<open>\<^verbatim>\<open>parent.split(/\s+/)[0]\<close>: the text before the first white space.\<close>

definition firstSplitToken :: "jsstring \<Rightarrow> jsstring" where
  "firstSplitToken s = takeWhile (\<lambda>c. \<not> isSpace c) s"

definition heritageOfSuffix :: "jsstring \<Rightarrow> jsstring \<Rightarrow> SolidityHeritage list" where
  "heritageOfSuffix nm suffix =
     (case firstMatch isRe suffix of
        None \<Rightarrow> []
      | Some (i, g) \<Rightarrow>
          map (\<lambda>parent. \<lparr>className = nm, parentName = firstSplitToken parent, kind = extends\<rparr>)
            (filter (\<lambda>p. p \<noteq> []) (map trim (splitOn 44 g))))"

text \<open>\<^verbatim>\<open>/\bstruct\s+([A-Za-z_][A-Za-z0-9_]*)\b/g\<close> and its like for \<^verbatim>\<open>enum\<close> and
  \<^verbatim>\<open>event\<close>.\<close>

definition keywordNameRe :: "string \<Rightarrow> code_unit option \<Rightarrow> jsstring \<Rightarrow> (nat \<times> jsstring) option" where
  "keywordNameRe kw prev s =
     (if wordBoundary prev s then
        do {
          r \<leftarrow> lit kw s;
          r' \<leftarrow> spaces1 r;
          (nm, r'') \<leftarrow> ident r';
          Some (length s - length r'', nm)
        }
      else None)"

text \<open>\<^verbatim>\<open>(?:virtual\s*)?\<close> and \<^verbatim>\<open>(?:override\s*(?:\([^)]*\))?\s*)?\<close>\<close>

definition optVirtual :: "jsstring \<Rightarrow> jsstring" where
  "optVirtual s = (case lit ''virtual'' s of Some r \<Rightarrow> spaces0 r | None \<Rightarrow> s)"

definition optOverride :: "jsstring \<Rightarrow> jsstring" where
  "optOverride s =
     (case lit ''override'' s of
        Some r \<Rightarrow>
          (let r' = spaces0 r in spaces0 (case parens r' of Some r'' \<Rightarrow> r'' | None \<Rightarrow> r'))
      | None \<Rightarrow> s)"

text \<open>\<^verbatim>\<open>/\bmodifier\s+([A-Za-z_][A-Za-z0-9_]*)\s*\([^)]*\)\s*(?:virtual\s*)?(?:override\s*(?:\([^)]*\))?\s*)?\{/g\<close>\<close>

definition modifierRe :: "code_unit option \<Rightarrow> jsstring \<Rightarrow> (nat \<times> jsstring) option" where
  "modifierRe prev s =
     (if wordBoundary prev s then
        do {
          r \<leftarrow> lit ''modifier'' s;
          r1 \<leftarrow> spaces1 r;
          (nm, r2) \<leftarrow> ident r1;
          r3 \<leftarrow> parens (spaces0 r2);
          r4 \<leftarrow> lit ''{'' (optOverride (optVirtual (spaces0 r3)));
          Some (length s - length r4, nm)
        }
      else None)"

text \<open>\<^verbatim>\<open>\s*\([^)]*\)\s*([^\{;]*)\{\<close>: the group and the text behind the brace.\<close>

definition signatureTail :: "jsstring \<Rightarrow> (jsstring \<times> jsstring) option" where
  "signatureTail s =
     do {
       r \<leftarrow> parens (spaces0 s);
       let modifiers = takeWhile notBraceSemi (spaces0 r);
       r' \<leftarrow> lit ''{'' (dropWhile notBraceSemi (spaces0 r));
       Some (modifiers, r')
     }"

text \<open>\<^verbatim>\<open>/\bfunction\s+([A-Za-z_][A-Za-z0-9_]*)\s*\([^)]*\)\s*([^\{;]*)\{/g\<close>\<close>

definition functionRe :: "code_unit option \<Rightarrow> jsstring \<Rightarrow> (nat \<times> jsstring \<times> jsstring) option" where
  "functionRe prev s =
     (if wordBoundary prev s then
        do {
          r \<leftarrow> lit ''function'' s;
          r1 \<leftarrow> spaces1 r;
          (nm, r2) \<leftarrow> ident r1;
          (modifiers, r3) \<leftarrow> signatureTail r2;
          Some (length s - length r3, nm, modifiers)
        }
      else None)"

text \<open>\<^verbatim>\<open>/\bconstructor\s*\([^)]*\)\s*([^\{;]*)\{/g\<close>\<close>

definition constructorRe :: "code_unit option \<Rightarrow> jsstring \<Rightarrow> (nat \<times> jsstring) option" where
  "constructorRe prev s =
     (if wordBoundary prev s then
        do {
          r \<leftarrow> lit ''constructor'' s;
          (modifiers, r') \<leftarrow> signatureTail r;
          Some (length s - length r', modifiers)
        }
      else None)"

text \<open>\<^verbatim>\<open>/\b(public|external)\b/\<close>\<close>

definition exportedRe :: "code_unit option \<Rightarrow> jsstring \<Rightarrow> (nat \<times> unit) option" where
  "exportedRe prev s =
     (if wordBoundary prev s then
        (case lit ''public'' s of
           Some r \<Rightarrow> if wordBoundary (Some 99) r then Some (6, ()) else None
         | None \<Rightarrow>
             (case lit ''external'' s of
                Some r \<Rightarrow> if wordBoundary (Some 108) r then Some (8, ()) else None
              | None \<Rightarrow> None))
      else None)"

text \<open>\<^verbatim>\<open>/\b([A-Za-z_][A-Za-z0-9_]*)\s*\(/g\<close>\<close>

definition callRe :: "code_unit option \<Rightarrow> jsstring \<Rightarrow> (nat \<times> jsstring) option" where
  "callRe prev s =
     (if wordBoundary prev s then
        do {
          (nm, r) \<leftarrow> ident s;
          r' \<leftarrow> lit ''('' (spaces0 r);
          Some (length s - length r', nm)
        }
      else None)"

definition importStep :: "nat \<times> jsstring \<Rightarrow> ExtractionState \<Rightarrow> ExtractionState" where
  "importStep match st = st\<lparr>imports' := imports' st @ [snd match]\<rparr>"

definition contractLikeStep ::
  "jsstring \<Rightarrow> nat \<times> jsstring \<times> jsstring \<times> jsstring \<Rightarrow> ExtractionState \<Rightarrow> ExtractionState" where
  "contractLikeStep content match st =
     (case match of (start, kind0, nm, suffix) \<Rightarrow>
        let knd = trim (collapseSpaces kind0);
            st' = (if includesStr knd (str ''interface'')
                   then addDef content (str ''Interface'') nm start True (int start) st
                   else if includesStr knd (str ''library'')
                   then addDef content (str ''Module'') nm start True (int start) st
                   else addDef content (str ''Class'') nm start True (int start) st)
        in st'\<lparr>heritage := heritage st' @ heritageOfSuffix nm suffix\<rparr>)"

definition plainDefStep ::
  "jsstring \<Rightarrow> string \<Rightarrow> nat \<times> jsstring \<Rightarrow> ExtractionState \<Rightarrow> ExtractionState" where
  "plainDefStep content lbl match st =
     addDef content (str lbl) (snd match) (fst match) True (int (fst match)) st"

text \<open>The body shared by the loops over modifiers, functions and constructors: find the
  braces, record the definition and the region.\<close>

definition methodStep ::
  "jsstring \<Rightarrow> jsstring \<Rightarrow> jsstring \<Rightarrow> nat \<Rightarrow> bool \<Rightarrow> ExtractionState \<Rightarrow> ExtractionState" where
  "methodStep filePath content nm start exported st =
     (let openBrace = indexOf content 123 start;
          closeBrace = (if openBrace \<ge> 0 then findBlockEnd content (nat openBrace) else int start);
          st' = addDef content (str ''Method'') nm start exported closeBrace st
      in st'\<lparr>blockRegions := blockRegions st' @
             [\<lparr>regionName = nm,
               regionSourceId = generateId (str ''Method'') (filePath @ str '':'' @ nm),
               regionStart = openBrace, regionEnd = closeBrace\<rparr>]\<rparr>)"

definition modifierStep ::
  "jsstring \<Rightarrow> jsstring \<Rightarrow> nat \<times> jsstring \<Rightarrow> ExtractionState \<Rightarrow> ExtractionState" where
  "modifierStep filePath content match st =
     methodStep filePath content (snd match) (fst match) True st"

definition functionStep ::
  "jsstring \<Rightarrow> jsstring \<Rightarrow> nat \<times> jsstring \<times> jsstring \<Rightarrow> ExtractionState \<Rightarrow> ExtractionState" where
  "functionStep filePath content match st =
     (case match of (start, nm, modifiers) \<Rightarrow>
        methodStep filePath content nm start (test exportedRe modifiers) st)"

definition constructorStep ::
  "jsstring \<Rightarrow> jsstring \<Rightarrow> nat \<times> jsstring \<Rightarrow> ExtractionState \<Rightarrow> ExtractionState" where
  "constructorStep filePath content match st =
     methodStep filePath content (str ''constructor'') (fst match) (test exportedRe (snd match)) st"

text \<open>The calls found in the body of one region.\<close>

definition regionCalls :: "jsstring \<Rightarrow> BlockRegion \<Rightarrow> SolidityCall list" where
  "regionCalls content region =
     (if regionStart region < 0 \<or> regionEnd region \<le> regionStart region then []
      else
        let body = slice content (regionStart region) (regionEnd region + 1) in
        map (\<lambda>match. \<lparr>calledName = snd match, sourceId = regionSourceId region\<rparr>)
          (filter (\<lambda>match. snd match \<notin> set CALL_KEYWORDS \<and> snd match \<noteq> regionName region)
             (matchAll callRe body)))"

text \<open>
  The body of \<^verbatim>\<open>extractSolidityArtifacts\<close> with its locals. The result lists, \<^verbatim>\<open>seenDefs\<close>
  and \<^verbatim>\<open>blockRegions\<close> are empty at the start of every call, and every pattern is a literal
  of the body: a new object in each call, whose scan starts at index 0. A call keeps
  nothing of the calls before it, so it is a function of its two arguments.
\<close>

definition scanSolidity :: "jsstring \<Rightarrow> jsstring \<Rightarrow> ExtractionState" where
  "scanSolidity filePath source =
     (let content = stripComments source;
          st0 = \<lparr>definitions = [], imports' = [], calls = [], heritage = [],
                 seenDefs = {}, blockRegions = []\<rparr>;
          st1 = fold importStep (matchAll importRe content) st0;
          st2 = fold (contractLikeStep content) (matchAll contractLikeRe content) st1;
          st3 = fold (plainDefStep content ''Struct'') (matchAll (keywordNameRe ''struct'') content) st2;
          st4 = fold (plainDefStep content ''Enum'') (matchAll (keywordNameRe ''enum'') content) st3;
          st5 = fold (plainDefStep content ''CodeElement'') (matchAll (keywordNameRe ''event'') content) st4;
          st6 = fold (modifierStep filePath content) (matchAll modifierRe content) st5;
          st7 = fold (functionStep filePath content) (matchAll functionRe content) st6;
          st8 = fold (constructorStep filePath content) (matchAll constructorRe content) st7
      in st8\<lparr>calls := concat (map (regionCalls content) (blockRegions st8))\<rparr>)"

definition extractSolidityArtifacts ::
  "jsstring \<Rightarrow> jsstring \<Rightarrow> SolidityDefinition SolidityExtractionResult" where
  "extractSolidityArtifacts filePath source =
     SolidityExtractionResult.truncate (scanSolidity filePath source)"

section \<open>The second Solidity extractor (extractSolidityFeatures)\<close>

definition KEYWORD_CALL_EXCLUSIONS :: "jsstring list" where
  "KEYWORD_CALL_EXCLUSIONS = map str
     [''if'', ''for'', ''while'', ''require'', ''assert'', ''revert'', ''return'', ''emit'', ''new'',
      ''mapping'', ''constructor'', ''modifier'', ''event'', ''error'', ''unchecked'', ''delete'',
      ''payable'', ''view'', ''pure'', ''returns'', ''memory'', ''storage'', ''calldata'']"

text \<open>\<^verbatim>\<open>content.slice(0, index).split('\n').length - 1\<close>\<close>

definition getLineNumber :: "jsstring \<Rightarrow> nat \<Rightarrow> nat" where
  "getLineNumber content index = length (splitOn 10 (slice content 0 (int index))) - 1"

text \<open>\<^verbatim>\<open>/\(.+\)$/\<close> at the head of the text: an opening parenthesis, at least one unit that
  is no line terminator, and a closing parenthesis as the last unit of the text.\<close>

definition argsTailRe :: "code_unit option \<Rightarrow> jsstring \<Rightarrow> (nat \<times> unit) option" where
  "argsTailRe prev s =
     (case s of
        [] \<Rightarrow> None
      | c # cs \<Rightarrow>
          if c = 40 \<and> 2 \<le> length cs \<and> last cs = 41
             \<and> (\<forall>x \<in> set (butlast cs). \<not> isLineTerminator x)
          then Some (length s, ())
          else None)"

text \<open>\<^verbatim>\<open>s.replace(/\(.+\)$/, '')\<close>: the leftmost match is cut off.\<close>

definition stripTrailingArgs :: "jsstring \<Rightarrow> jsstring" where
  "stripTrailingArgs s = (case firstMatch argsTailRe s of None \<Rightarrow> s | Some (i, u) \<Rightarrow> take i s)"

definition normalizeBaseName :: "jsstring \<Rightarrow> jsstring" where
  "normalizeBaseName nm = trim (stripTrailingArgs (collapseSpaces (trim nm)))"

text \<open>\<^verbatim>\<open>(contract|interface|library)\<close>\<close>

definition contractKind3 :: "jsstring \<Rightarrow> (jsstring \<times> jsstring) option" where
  "contractKind3 s =
     (case lit ''contract'' s of
        Some r \<Rightarrow> Some (str ''contract'', r)
      | None \<Rightarrow>
          (case lit ''interface'' s of
             Some r \<Rightarrow> Some (str ''interface'', r)
           | None \<Rightarrow> map_option (\<lambda>r. (str ''library'', r)) (lit ''library'' s)))"

text \<open>\<^verbatim>\<open>is\s+([^\{]+)\<close> and the \<^verbatim>\<open>\s*\{\<close> behind it: the group and the text behind the
  brace. When nothing but the brace follows the white space, \<^verbatim>\<open>\s+\<close> gives its last unit
  back to the group.\<close>

definition isBases :: "jsstring \<Rightarrow> (jsstring \<times> jsstring) option" where
  "isBases s =
     (case lit ''is'' s of
        None \<Rightarrow> None
      | Some r \<Rightarrow>
          (let ws = takeWhile isSpace r; r' = dropWhile isSpace r;
               g = takeWhile (\<lambda>c. c \<noteq> 123) r' in
           if ws = [] then None
           else if g \<noteq> [] then map_option (\<lambda>x. (g, x)) (lit ''{'' (dropWhile (\<lambda>c. c \<noteq> 123) r'))
           else if 2 \<le> length ws then map_option (\<lambda>x. ([last ws], x)) (lit ''{'' r')
           else None))"

text \<open>\<^verbatim>\<open>\s*(?:is\s+([^\{]+))?\s*\{\<close> behind the name: the group, if it took part, and the
  text behind the brace.\<close>

definition afterName :: "jsstring \<Rightarrow> (jsstring option \<times> jsstring) option" where
  "afterName s =
     (case isBases (spaces0 s) of
        Some (g, r) \<Rightarrow> Some (Some g, r)
      | None \<Rightarrow> map_option (\<lambda>r. (None, r)) (lit ''{'' (spaces0 s)))"

text \<open>
  The name \<^verbatim>\<open>([A-Za-z_][A-Za-z0-9_]*)\<close> has no \<^verbatim>\<open>\b\<close> behind it in this pattern, so
  when the rest fails behind the whole identifier the engine gives the last unit of the
  name back and tries again, down to a name of one unit. The name is passed reversed.
\<close>

fun nameBacktrack ::
  "jsstring \<Rightarrow> jsstring \<Rightarrow> (jsstring \<times> jsstring option \<times> jsstring) option" where
  "nameBacktrack [] r = None"
| "nameBacktrack (c # rw) r =
     (case afterName r of
        Some x \<Rightarrow> Some (rev (c # rw), x)
      | None \<Rightarrow> nameBacktrack rw (c # r))"

text \<open>\<^verbatim>\<open>/\b(contract|interface|library)\s+([A-Za-z_][A-Za-z0-9_]*)\s*(?:is\s+([^\{]+))?\s*\{/g\<close>\<close>

definition contractRegex ::
  "code_unit option \<Rightarrow> jsstring \<Rightarrow> (nat \<times> jsstring \<times> jsstring \<times> jsstring option) option" where
  "contractRegex prev s =
     (if wordBoundary prev s then
        do {
          (knd, r) \<leftarrow> contractKind3 s;
          r' \<leftarrow> spaces1 r;
          (w, r'') \<leftarrow> ident r';
          (nm, bases, rest) \<leftarrow> nameBacktrack (rev w) r'';
          Some (length s - length rest, knd, nm, bases)
        }
      else None)"

text \<open>\<^verbatim>\<open>/\bfunction\s+([A-Za-z_][A-Za-z0-9_]*)\s*\([^)]*\)\s*([^\{;]*)/g\<close>\<close>

definition functionRegex ::
  "code_unit option \<Rightarrow> jsstring \<Rightarrow> (nat \<times> jsstring \<times> jsstring) option" where
  "functionRegex prev s =
     (if wordBoundary prev s then
        do {
          r \<leftarrow> lit ''function'' s;
          r1 \<leftarrow> spaces1 r;
          (nm, r2) \<leftarrow> ident r1;
          r3 \<leftarrow> parens (spaces0 r2);
          let tail = takeWhile notBraceSemi (spaces0 r3);
          Some (length s - length (dropWhile notBraceSemi (spaces0 r3)), nm, tail)
        }
      else None)"

text \<open>\<^verbatim>\<open>/\bconstructor\s*\([^)]*\)\s*([^\{;]*)/g\<close>\<close>

definition constructorRegex :: "code_unit option \<Rightarrow> jsstring \<Rightarrow> (nat \<times> jsstring) option" where
  "constructorRegex prev s =
     (if wordBoundary prev s then
        do {
          r \<leftarrow> lit ''constructor'' s;
          r3 \<leftarrow> parens (spaces0 r);
          let tail = takeWhile notBraceSemi (spaces0 r3);
          Some (length s - length (dropWhile notBraceSemi (spaces0 r3)), tail)
        }
      else None)"

definition pushDefinition ::
  "jsstring \<Rightarrow> jsstring \<Rightarrow> string \<Rightarrow> jsstring \<Rightarrow> nat \<Rightarrow> bool
     \<Rightarrow> SolidityDefinitionWithId SolidityExtractionResult
     \<Rightarrow> SolidityDefinitionWithId SolidityExtractionResult" where
  "pushDefinition filePath content lbl nm index exported res =
     (let line = getLineNumber content index in
      res\<lparr>definitions := definitions res @
            [\<lparr>label = str lbl, name = nm, startLine = line, endLine = line, isExported = exported,
              defId = generateId (str lbl) (filePath @ str '':'' @ nm)\<rparr>]\<rparr>)"

text \<open>The loop over the comma-separated bases of one declaration.\<close>

definition basesHeritage :: "jsstring \<Rightarrow> jsstring \<Rightarrow> jsstring \<Rightarrow> SolidityHeritage list" where
  "basesHeritage knd nm bases =
     map (\<lambda>parent. \<lparr>className = nm, parentName = parent,
                     kind = (if knd = str ''interface'' then implements else extends)\<rparr>)
       (filter (\<lambda>p. p \<noteq> []) (map normalizeBaseName (splitOn 44 bases)))"

definition contractStep ::
  "jsstring \<Rightarrow> jsstring \<Rightarrow> nat \<times> jsstring \<times> jsstring \<times> jsstring option
     \<Rightarrow> SolidityDefinitionWithId SolidityExtractionResult
     \<Rightarrow> SolidityDefinitionWithId SolidityExtractionResult" where
  "contractStep filePath content match res =
     (case match of (index, knd, nm, bases) \<Rightarrow>
        let res' = pushDefinition filePath content
                     (if knd = str ''interface'' then ''Interface'' else ''Class'') nm index True res
        in (case bases of
              None \<Rightarrow> res'
            | Some b \<Rightarrow>
                if b = [] then res'
                else res'\<lparr>heritage := heritage res' @ basesHeritage knd nm b\<rparr>))"

definition featureFunctionStep ::
  "jsstring \<Rightarrow> jsstring \<Rightarrow> nat \<times> jsstring \<times> jsstring
     \<Rightarrow> SolidityDefinitionWithId SolidityExtractionResult
     \<Rightarrow> SolidityDefinitionWithId SolidityExtractionResult" where
  "featureFunctionStep filePath content match res =
     (case match of (index, nm, tail) \<Rightarrow>
        pushDefinition filePath content ''Function'' nm index (test exportedRe tail) res)"

definition featureConstructorStep ::
  "jsstring \<Rightarrow> jsstring \<Rightarrow> nat \<times> jsstring
     \<Rightarrow> SolidityDefinitionWithId SolidityExtractionResult
     \<Rightarrow> SolidityDefinitionWithId SolidityExtractionResult" where
  "featureConstructorStep filePath content match res =
     pushDefinition filePath content ''Constructor'' (str ''constructor'') (fst match)
       (test exportedRe (snd match)) res"

definition featureNamedStep ::
  "jsstring \<Rightarrow> jsstring \<Rightarrow> string \<Rightarrow> bool \<Rightarrow> nat \<times> jsstring
     \<Rightarrow> SolidityDefinitionWithId SolidityExtractionResult
     \<Rightarrow> SolidityDefinitionWithId SolidityExtractionResult" where
  "featureNamedStep filePath content lbl exported match res =
     pushDefinition filePath content lbl (snd match) (fst match) exported res"

definition featureCalls :: "jsstring \<Rightarrow> jsstring \<Rightarrow> SolidityCall list" where
  "featureCalls filePath content =
     (let topLevelSourceId = generateId (str ''File'') filePath in
      map (\<lambda>match. \<lparr>calledName = snd match, sourceId = topLevelSourceId\<rparr>)
        (filter (\<lambda>match. snd match \<notin> set KEYWORD_CALL_EXCLUSIONS) (matchAll callRe content)))"

text \<open>
  \<^verbatim>\<open>extractSolidityFeatures\<close>: its result lists are empty at the start of every call and its
  patterns are literals of its body too; each \<^verbatim>\<open>exec\<close> loop starts at index 0 and runs
  until no further match is found. A call is a function of its two arguments.
\<close>

definition extractSolidityFeatures ::
  "jsstring \<Rightarrow> jsstring \<Rightarrow> SolidityDefinitionWithId SolidityExtractionResult" where
  "extractSolidityFeatures filePath content =
     (let r0 = \<lparr>definitions = [], imports' = [], calls = [], heritage = []\<rparr>;
          r1 = fold (contractStep filePath content) (matchAll contractRegex content) r0;
          r2 = fold (featureFunctionStep filePath content) (matchAll functionRegex content) r1;
          r3 = fold (featureConstructorStep filePath content) (matchAll constructorRegex content) r2;
          r4 = fold (featureNamedStep filePath content ''Method'' False)
                 (matchAll (keywordNameRe ''modifier'') content) r3;
          r5 = fold (featureNamedStep filePath content ''CodeElement'' True)
                 (matchAll (keywordNameRe ''event'') content) r4;
          r6 = fold (featureNamedStep filePath content ''CodeElement'' True)
                 (matchAll (keywordNameRe ''error'') content) r5;
          r7 = r6\<lparr>imports' := imports' r6 @ map snd (matchAll importRe content)\<rparr>
      in r7\<lparr>calls := featureCalls filePath content\<rparr>)"


section \<open>kuzu-adapter.ts: the store\<close>

text \<open>
  The module keeps three handles, \<^verbatim>\<open>kuzu\<close>, \<^verbatim>\<open>db\<close> and \<^verbatim>\<open>conn\<close>, each \<^verbatim>\<open>null\<close> until
  \<open>initKuzu\<close> sets it. The engine itself is outside the sources: what each of its calls
  does (return or throw) is given to an operation from outside, and the state records of
  the engine only what the claims speak of: whether a bulk load has completed in the
  database at hand (\<open>storeLoaded\<close>), and the queries that \<open>executeQuery\<close> has submitted
  (\<open>queryLog\<close>), each with the value of \<open>isKuzuReady\<close> and of \<open>storeLoaded\<close> at that moment.
  An operation runs from its call to its return without another one in between.
\<close>

datatype handle = KuzuModule | Database | Connection

datatype 'a outcome = Throws | Returns 'a

record KuzuState =
  kuzu :: "handle option"
  db :: "handle option"
  conn :: "handle option"
  storeLoaded :: bool
  queryLog :: "(jsstring \<times> bool \<times> bool) list"

definition initialState :: KuzuState where
  "initialState = \<lparr>kuzu = None, db = None, conn = None, storeLoaded = False, queryLog = []\<rparr>"

text \<open>What the calls of \<open>initKuzu\<close> do: \<^verbatim>\<open>import('kuzu-wasm')\<close>, \<^verbatim>\<open>kuzu.init()\<close>,
  \<^verbatim>\<open>new kuzu.Database\<close>, \<^verbatim>\<open>new kuzu.Connection\<close> and the two schema queries.\<close>

record InitOutcome =
  importOk :: bool
  wasmInitOk :: bool
  databaseOk :: bool
  connectionOk :: bool
  schemaOk :: bool

text \<open>\<open>initKuzu\<close>: nothing to do when \<^verbatim>\<open>conn\<close> is set; a failure of the schema queries is
  caught, every other failure is logged and thrown again.\<close>

definition initKuzu :: "InitOutcome \<Rightarrow> KuzuState \<Rightarrow> unit outcome \<times> KuzuState" where
  "initKuzu env st =
     (if conn st \<noteq> None then (Returns (), st)
      else if \<not> importOk env then (Throws, st)
      else
        let st1 = st\<lparr>kuzu := Some KuzuModule\<rparr> in
        if \<not> wasmInitOk env then (Throws, st1)
        else if \<not> databaseOk env then (Throws, st1)
        else
          let st2 = st1\<lparr>db := Some Database, storeLoaded := False\<rparr> in
          if \<not> connectionOk env then (Throws, st2)
          else (Returns (), st2\<lparr>conn := Some Connection\<rparr>))"

definition isKuzuReady :: "KuzuState \<Rightarrow> bool" where
  "isKuzuReady st \<longleftrightarrow> conn st \<noteq> None \<and> db st \<noteq> None"

text \<open>
  What the calls of \<open>loadGraphToKuzu\<close> do. \<^verbatim>\<open>generateNodeCSV\<close> and \<^verbatim>\<open>generateEdgeCSV\<close>
  (\<^verbatim>\<open>csv-generator\<close>, not among the sources) are taken as they are declared, functions from
  the graph to a text, \<open>None\<close> when they throw; the calls of the engine return or throw.
\<close>

record ('g, 'f) LoadOutcome =
  loadInit :: InitOutcome
  generateNodeCSV :: "'g \<Rightarrow> 'f \<Rightarrow> jsstring option"
  generateEdgeCSV :: "'g \<Rightarrow> jsstring option"
  writeNodesOk :: bool
  writeEdgesOk :: bool
  copyNodesOk :: bool
  copyEdgesOk :: bool
  countQueryOk :: bool
  getNextOk :: bool
  nodeCount :: nat

record LoadResult =
  success :: bool
  count :: nat

text \<open>
  \<open>loadGraphToKuzu\<close>: the call of \<open>initKuzu\<close> stands before the \<^verbatim>\<open>try\<close>, so its failure is
  thrown on; every failure inside the \<^verbatim>\<open>try\<close> is caught and answered with
  \<^verbatim>\<open>{ success: false, count: 0 }\<close>; the failures of the four \<^verbatim>\<open>unlink\<close> calls are swallowed
  where they happen. The result comes with the graph as it is after the call.
\<close>

definition loadGraphToKuzu ::
  "('g, 'f) LoadOutcome \<Rightarrow> 'g \<Rightarrow> 'f \<Rightarrow> KuzuState \<Rightarrow> (LoadResult outcome \<times> 'g) \<times> KuzuState" where
  "loadGraphToKuzu env graph fileContents st =
     (case initKuzu (loadInit env) st of
        (Throws, st') \<Rightarrow> ((Throws, graph), st')
      | (Returns u, st') \<Rightarrow>
          let failed = Returns \<lparr>success = False, count = 0\<rparr> in
          (case generateNodeCSV env graph fileContents of
             None \<Rightarrow> ((failed, graph), st')
           | Some nodesCSV \<Rightarrow>
               (case generateEdgeCSV env graph of
                  None \<Rightarrow> ((failed, graph), st')
                | Some edgesCSV \<Rightarrow>
                    if \<not> writeNodesOk env then ((failed, graph), st')
                    else if \<not> writeEdgesOk env then ((failed, graph), st')
                    else if \<not> copyNodesOk env then ((failed, graph), st')
                    else if \<not> copyEdgesOk env then ((failed, graph), st')
                    else
                      let st'' = st'\<lparr>storeLoaded := True\<rparr> in
                      if \<not> countQueryOk env then ((failed, graph), st'')
                      else if \<not> getNextOk env then ((failed, graph), st'')
                      else ((Returns \<lparr>success = True, count = nodeCount env\<rparr>, graph), st''))))"

text \<open>What the calls of \<open>executeQuery\<close> do: those of \<open>initKuzu\<close>, when it is called, and
  \<^verbatim>\<open>conn.query\<close> with the reading of its rows.\<close>

record QueryOutcome =
  queryInit :: InitOutcome
  queryOk :: bool
  rows :: "jsstring list"

text \<open>\<open>executeQuery\<close>: when \<^verbatim>\<open>conn\<close> is not set the store is initialised first; then the
  query is submitted, and a failure of the query is thrown again.\<close>

definition executeQuery ::
  "QueryOutcome \<Rightarrow> jsstring \<Rightarrow> KuzuState \<Rightarrow> jsstring list outcome \<times> KuzuState" where
  "executeQuery env cypher st =
     (case (if conn st = None then initKuzu (queryInit env) st else (Returns (), st)) of
        (Throws, st') \<Rightarrow> (Throws, st')
      | (Returns u, st') \<Rightarrow>
          let st'' = st'\<lparr>queryLog := queryLog st' @ [(cypher, isKuzuReady st', storeLoaded st')]\<rparr>
          in if queryOk env then (Returns (rows env), st'') else (Throws, st''))"

text \<open>\<open>closeKuzu\<close>: the failures of the two \<^verbatim>\<open>close\<close> calls are swallowed.\<close>

definition closeKuzu :: "KuzuState \<Rightarrow> KuzuState" where
  "closeKuzu st = st\<lparr>conn := None, db := None, kuzu := None, storeLoaded := False\<rparr>"

text \<open>The operations of the module, and a run of a sequence of them.\<close>

datatype ('g, 'f) operation =
  Init InitOutcome
| Load "('g, 'f) LoadOutcome" 'g 'f
| Query QueryOutcome jsstring
| Close

fun step :: "('g, 'f) operation \<Rightarrow> KuzuState \<Rightarrow> KuzuState" where
  "step (Init env) st = snd (initKuzu env st)"
| "step (Load env graph fileContents) st = snd (loadGraphToKuzu env graph fileContents st)"
| "step (Query env cypher) st = snd (executeQuery env cypher st)"
| "step Close st = closeKuzu st"

definition run :: "('g, 'f) operation list \<Rightarrow> KuzuState \<Rightarrow> KuzuState" where
  "run ops st = fold step ops st"

text \<open>An engine whose calls all return.\<close>

definition allInitOk :: InitOutcome where
  "allInitOk = \<lparr>importOk = True, wasmInitOk = True, databaseOk = True, connectionOk = True,
                schemaOk = True\<rparr>"

definition allQueryOk :: QueryOutcome where
  "allQueryOk = \<lparr>queryInit = allInitOk, queryOk = True, rows = []\<rparr>"



definition returnOne :: jsstring where
  "returnOne = str ''RETURN 1''"


section \<open>The graph builder\<close>

text \<open>
  Modelled from the spec: the data model of section 3 (Node, Relationship,
  KnowledgeGraph), whose declarations (\<^verbatim>\<open>core/graph/types\<close>) are not among the sources. A
  node has an id, a label, a name, a file path, its lines and its export flag; a
  relationship has a source id, a target id and one of six types; a graph is its nodes,
  unique by id, and the sequence of its relationships.
\<close>

datatype rel_type = CONTAINS | DEFINES | CALLS | IMPORTS | EXTENDS | IMPLEMENTS

record GraphNode =
  nodeId :: node_id
  nodeLabel :: jsstring
  nodeName :: jsstring
  nodeFilePath :: jsstring
  nodeStartLine :: nat
  nodeEndLine :: nat
  nodeIsExported :: bool

record Relationship =
  relSourceId :: node_id
  relTargetId :: node_id
  relType :: rel_type

record KnowledgeGraph =
  nodes :: "GraphNode list"
  relationships :: "Relationship list"

text \<open>
  Modelled from the spec: the input of the Graph Builder (4.4), which is not among the
  sources: the extraction results of the files, each with the path of its file.
\<close>

type_synonym FileResult = "jsstring \<times> SolidityDefinition SolidityExtractionResult"

text \<open>
  Modelled from the spec: step 1 of the Graph Builder, one File node for each file; the
  id of a File node is a function of the file path alone (4.2).
\<close>

definition fileId :: "jsstring \<Rightarrow> node_id" where
  "fileId filePath = generateId (str ''File'') filePath"

definition fileNode :: "FileResult \<Rightarrow> GraphNode" where
  "fileNode fr =
     \<lparr>nodeId = fileId (fst fr), nodeLabel = str ''File'', nodeName = fst fr,
      nodeFilePath = fst fr, nodeStartLine = 0, nodeEndLine = 0, nodeIsExported = True\<rparr>"

text \<open>
  Modelled from the spec: step 2 of the Graph Builder, one node for each definition, its
  id that of the Identity Scheme for its label, file path and name (the extractors give
  no disambiguator), the nodes deduplicated by id.
\<close>

definition definitionId :: "jsstring \<Rightarrow> SolidityDefinition \<Rightarrow> node_id" where
  "definitionId filePath d = generateId (label d) (filePath @ str '':'' @ name d)"

definition definitionNode :: "jsstring \<times> SolidityDefinition \<Rightarrow> GraphNode" where
  "definitionNode fd =
     \<lparr>nodeId = definitionId (fst fd) (snd fd), nodeLabel = label (snd fd),
      nodeName = name (snd fd), nodeFilePath = fst fd, nodeStartLine = startLine (snd fd),
      nodeEndLine = endLine (snd fd), nodeIsExported = isExported (snd fd)\<rparr>"

definition addNode :: "GraphNode \<Rightarrow> GraphNode list \<Rightarrow> GraphNode list" where
  "addNode n ns = (if nodeId n \<in> nodeId ` set ns then ns else ns @ [n])"

text \<open>
  Modelled from the spec: the global index of step 3, all definitions across all files in
  file-then-declaration order, each with its file.
\<close>

definition allDefinitions :: "FileResult list \<Rightarrow> (jsstring \<times> SolidityDefinition) list" where
  "allDefinitions files = concat (map (\<lambda>fr. map (\<lambda>d. (fst fr, d)) (definitions (snd fr))) files)"

text \<open>
  Modelled from the spec: the tie-break of step 3: among the definitions of the name,
  one of the file of the reference if there is one, else the first; none when the name
  has no definition.
\<close>

definition resolveName ::
  "(jsstring \<times> SolidityDefinition) list \<Rightarrow> jsstring \<Rightarrow> jsstring \<Rightarrow> node_id option" where
  "resolveName index filePath nm =
     (let candidates = filter (\<lambda>fd. name (snd fd) = nm) index in
      case filter (\<lambda>fd. fst fd = filePath) candidates of
        fd # _ \<Rightarrow> Some (definitionId (fst fd) (snd fd))
      | [] \<Rightarrow>
          (case candidates of
             fd # _ \<Rightarrow> Some (definitionId (fst fd) (snd fd))
           | [] \<Rightarrow> None))"

text \<open>
  Modelled from the spec: the CONTAINS relationships of step 2, from the File node of the
  owning file to each of its definitions.
\<close>

definition containsEdges :: "FileResult list \<Rightarrow> Relationship list" where
  "containsEdges files =
     map (\<lambda>fd. \<lparr>relSourceId = fileId (fst fd), relTargetId = definitionId (fst fd) (snd fd),
                relType = CONTAINS\<rparr>)
       (allDefinitions files)"

text \<open>
  Modelled from the spec: step 3, a CALLS relationship from the originating node of each
  call to the definition its called name resolves to; a call whose name does not resolve
  is dropped.
\<close>

definition callEdges :: "FileResult list \<Rightarrow> Relationship list" where
  "callEdges files =
     concat (map (\<lambda>fr.
       List.map_filter (\<lambda>c.
           map_option (\<lambda>target. \<lparr>relSourceId = sourceId c, relTargetId = target, relType = CALLS\<rparr>)
             (resolveName (allDefinitions files) (fst fr) (calledName c)))
         (calls (snd fr))) files)"

text \<open>
  Modelled from the spec: step 4, the raw path of an import normalized against the
  directory of the importing file (\<^verbatim>\<open>.\<close> and empty segments skipped, \<^verbatim>\<open>..\<close> going one
  directory up) and looked up among the ingested files; an import that names none of
  them is dropped.
\<close>

definition applySegment :: "jsstring \<Rightarrow> jsstring list \<Rightarrow> jsstring list" where
  "applySegment seg dir =
     (if seg = [] \<or> seg = str ''.'' then dir
      else if seg = str ''..'' then butlast dir
      else dir @ [seg])"

fun joinPath :: "jsstring list \<Rightarrow> jsstring" where
  "joinPath [] = []"
| "joinPath [seg] = seg"
| "joinPath (seg # segs) = seg @ 47 # joinPath segs"

definition resolveImport :: "jsstring \<Rightarrow> jsstring \<Rightarrow> jsstring" where
  "resolveImport filePath raw =
     joinPath (fold applySegment (splitOn 47 raw) (butlast (splitOn 47 filePath)))"

definition importEdges :: "FileResult list \<Rightarrow> Relationship list" where
  "importEdges files =
     concat (map (\<lambda>fr.
       List.map_filter (\<lambda>raw.
           let target = resolveImport (fst fr) raw in
           if target \<in> fst ` set files
           then Some \<lparr>relSourceId = fileId (fst fr), relTargetId = fileId target,
                      relType = IMPORTS\<rparr>
           else None)
         (imports' (snd fr))) files)"

text \<open>
  Modelled from the spec: step 5, each heritage record resolved against the index of the
  class and interface definitions with the tie-break of the calls, for the class as for
  its parent; a record of which one end does not resolve is dropped.
\<close>

definition classIndex :: "FileResult list \<Rightarrow> (jsstring \<times> SolidityDefinition) list" where
  "classIndex files =
     filter (\<lambda>fd. label (snd fd) = str ''Class'' \<or> label (snd fd) = str ''Interface'')
       (allDefinitions files)"

definition heritageEdge ::
  "(jsstring \<times> SolidityDefinition) list \<Rightarrow> jsstring \<Rightarrow> SolidityHeritage \<Rightarrow> Relationship option" where
  "heritageEdge index filePath h =
     do {
       child \<leftarrow> resolveName index filePath (className h);
       parent \<leftarrow> resolveName index filePath (parentName h);
       Some \<lparr>relSourceId = child, relTargetId = parent,
             relType = (case kind h of extends \<Rightarrow> EXTENDS | implements \<Rightarrow> IMPLEMENTS)\<rparr>
     }"

definition heritageEdges :: "FileResult list \<Rightarrow> Relationship list" where
  "heritageEdges files =
     concat (map (\<lambda>fr.
       List.map_filter (heritageEdge (classIndex files) (fst fr)) (heritage (snd fr))) files)"

text \<open>
  Modelled from the spec: \<^verbatim>\<open>build(perFileResults)\<close> of the Graph Builder (4.4): the File
  nodes and the definition nodes, unique by id, and the relationships of steps 2 to 5
  without duplicates.
\<close>

definition build :: "FileResult list \<Rightarrow> KnowledgeGraph" where
  "build files =
     \<lparr>nodes = fold addNode (map fileNode files @ map definitionNode (allDefinitions files)) [],
      relationships =
        remdups (containsEdges files @ callEdges files @ importEdges files @ heritageEdges files)\<rparr>"

text \<open>The two files of the end-to-end example of the spec, as their extraction results.\<close>

definition exampleFiles :: "FileResult list" where
  "exampleFiles =
     [(str ''a.sol'',
       \<lparr>definitions =
          [\<lparr>label = str ''Class'', name = str ''A'', startLine = 0, endLine = 0, isExported = True\<rparr>,
           \<lparr>label = str ''Method'', name = str ''f'', startLine = 0, endLine = 0, isExported = True\<rparr>],
        imports' = [],
        calls = [\<lparr>calledName = str ''g'',
                  sourceId = generateId (str ''Method'') (str ''a.sol:f'')\<rparr>],
        heritage = []\<rparr>),
      (str ''b.sol'',
       \<lparr>definitions =
          [\<lparr>label = str ''Class'', name = str ''B'', startLine = 0, endLine = 0, isExported = True\<rparr>,
           \<lparr>label = str ''Method'', name = str ''g'', startLine = 0, endLine = 0, isExported = True\<rparr>],
        imports' = [],
        calls = [],
        heritage = [\<lparr>className = str ''B'', parentName = str ''A'', kind = extends\<rparr>]\<rparr>)]"


section \<open>Notions used to state the properties\<close>

text \<open>A code unit of the result against the code unit of the input at the same place:
  kept, or a non-newline replaced by a space.\<close>

definition blanked :: "code_unit \<Rightarrow> code_unit \<Rightarrow> bool" where
  "blanked r c \<longleftrightarrow> r = c \<or> (r = 32 \<and> c \<noteq> 10)"

text \<open>Some suffix of the text starts with a match of the pattern.\<close>

fun anyMatch :: "(jsstring \<Rightarrow> nat option) \<Rightarrow> jsstring \<Rightarrow> bool" where
  "anyMatch m [] = False"
| "anyMatch m (c # cs) = (m (c # cs) \<noteq> None \<or> anyMatch m cs)"


text \<open>
  The matches that a global pattern finds in a text from the left, each with its index
  and its length, \<open>i\<close> being the index of the head of the text: the block comments and
  the line comments of the normalizer are these for its two patterns.
\<close>

function matchSpans :: "(jsstring \<Rightarrow> nat option) \<Rightarrow> nat \<Rightarrow> jsstring \<Rightarrow> (nat \<times> nat) list" where
  "matchSpans m i [] = []"
| "matchSpans m i (c # cs) =
     (case m (c # cs) of
        None \<Rightarrow> matchSpans m (i + 1) cs
      | Some n \<Rightarrow>
          if n = 0 then matchSpans m (i + 1) cs
          else (i, n) # matchSpans m (i + n) (drop n (c # cs)))"
  by pat_completeness auto
termination
  by (relation "measure (\<lambda>(m, i, s). length s)") auto

definition commentExample :: jsstring where
  "commentExample = str ''a/*b*/c//d''"


text \<open>
  Braces by counting, without the scan: the opening braces minus the closing braces of a
  text, and a closing brace at index \<open>j\<close> that matches the text from \<open>openBraceIndex\<close> on,
  the braces up to and including it being balanced.
\<close>

definition braceBalance :: "jsstring \<Rightarrow> int" where
  "braceBalance s = int (length (filter (\<lambda>c. c = 123) s)) - int (length (filter (\<lambda>c. c = 125) s))"

definition closesAt :: "jsstring \<Rightarrow> nat \<Rightarrow> nat \<Rightarrow> bool" where
  "closesAt source openBraceIndex j \<longleftrightarrow>
     openBraceIndex \<le> j \<and> j < length source \<and> source ! j = 125
     \<and> braceBalance (take (Suc j - openBraceIndex) (drop openBraceIndex source)) = 0"

text \<open>What every recorded region satisfies: its id is the Method id of its name, and when
  an opening brace was found the region starts at a brace of the text and ends where the
  brace scan says.\<close>

definition regionOK :: "jsstring \<Rightarrow> jsstring \<Rightarrow> BlockRegion \<Rightarrow> bool" where
  "regionOK filePath content r \<longleftrightarrow>
     regionSourceId r = generateId (str ''Method'') (filePath @ str '':'' @ regionName r)
     \<and> (0 \<le> regionStart r \<longrightarrow>
          nat (regionStart r) < length content \<and> content ! nat (regionStart r) = 123
          \<and> regionEnd r = findBlockEnd content (nat (regionStart r)))"

definition hasMethod :: "ExtractionState \<Rightarrow> jsstring \<Rightarrow> bool" where
  "hasMethod st nm \<longleftrightarrow> (\<exists>d \<in> set (definitions st). label d = str ''Method'' \<and> name d = nm)"

definition scanInv :: "jsstring \<Rightarrow> jsstring \<Rightarrow> ExtractionState \<Rightarrow> bool" where
  "scanInv filePath content st \<longleftrightarrow>
     (\<forall>r \<in> set (blockRegions st). regionOK filePath content r \<and> hasMethod st (regionName r))
     \<and> (\<forall>k \<in> seenDefs st. \<exists>d \<in> set (definitions st). label d = fst k \<and> name d = fst (snd k))"

text \<open>The region that one match of a modifier, function or constructor pattern records.\<close>

definition mkRegion :: "jsstring \<Rightarrow> jsstring \<Rightarrow> jsstring \<Rightarrow> nat \<Rightarrow> BlockRegion" where
  "mkRegion filePath content nm start =
     (let openBrace = indexOf content 123 start in
      \<lparr>regionName = nm,
       regionSourceId = generateId (str ''Method'') (filePath @ str '':'' @ nm),
       regionStart = openBrace,
       regionEnd = (if openBrace \<ge> 0 then findBlockEnd content (nat openBrace) else int start)\<rparr>)"

text \<open>
  Matches with their extent. \<open>before content i\<close> is the code unit that a pattern is given
  as the one before index \<open>i\<close>, and \<open>matchLength m content i\<close> the number of code units
  that the pattern \<open>m\<close> matches at index \<open>i\<close> (0 when it does not match there).
\<close>

definition before :: "jsstring \<Rightarrow> nat \<Rightarrow> code_unit option" where
  "before content i = (if i = 0 then None else Some (content ! (i - 1)))"

definition matchLength ::
  "(code_unit option \<Rightarrow> jsstring \<Rightarrow> (nat \<times> 'g) option) \<Rightarrow> jsstring \<Rightarrow> nat \<Rightarrow> nat" where
  "matchLength m content i =
     (case m (before content i) (drop i content) of None \<Rightarrow> 0 | Some (n, g) \<Rightarrow> n)"

text \<open>
  The modifier, function and constructor declarations of a text in the order in which the
  three loops visit them: the index where the match of the declaration starts, the index
  of the last code unit of the match (the opening brace that each of the three patterns
  ends with), and the name.
\<close>

definition methodDeclarations :: "jsstring \<Rightarrow> (nat \<times> nat \<times> jsstring) list" where
  "methodDeclarations content =
     map (\<lambda>m. (fst m, fst m + matchLength modifierRe content (fst m) - 1, snd m))
       (matchAll modifierRe content)
     @ map (\<lambda>m. (fst m, fst m + matchLength functionRe content (fst m) - 1, fst (snd m)))
         (matchAll functionRe content)
     @ map (\<lambda>m. (fst m, fst m + matchLength constructorRe content (fst m) - 1, str ''constructor''))
         (matchAll constructorRe content)"

text \<open>Index \<open>k\<close> holds the first opening brace at or after index \<open>start\<close>.\<close>

definition firstBrace :: "jsstring \<Rightarrow> nat \<Rightarrow> nat \<Rightarrow> bool" where
  "firstBrace content start k \<longleftrightarrow>
     start \<le> k \<and> k < length content \<and> content ! k = 123
     \<and> 123 \<notin> set (take (k - start) (drop start content))"

text \<open>The text of a region, from the code unit at its start to the one at its end.\<close>

definition scopeText :: "jsstring \<Rightarrow> BlockRegion \<Rightarrow> jsstring" where
  "scopeText content r =
     take (nat (regionEnd r) + 1 - nat (regionStart r)) (drop (nat (regionStart r)) content)"

text \<open>
  Region \<open>r\<close> is the scope of the declaration \<open>d\<close>: it has the name of the declaration and
  the Method id of that name, it starts at the first opening brace at or after the start
  of the declaration, which is at or before the opening brace of the declaration, and it
  ends where the brace scan from its start ends.
\<close>

definition scopeOf :: "jsstring \<Rightarrow> jsstring \<Rightarrow> nat \<times> nat \<times> jsstring \<Rightarrow> BlockRegion \<Rightarrow> bool" where
  "scopeOf filePath content d r \<longleftrightarrow>
     (case d of (start, brace, nm) \<Rightarrow>
        regionName r = nm
        \<and> regionSourceId r = generateId (str ''Method'') (filePath @ str '':'' @ nm)
        \<and> 0 \<le> regionStart r \<and> firstBrace content start (nat (regionStart r))
        \<and> brace < length content \<and> content ! brace = 123 \<and> nat (regionStart r) \<le> brace
        \<and> regionEnd r = findBlockEnd content (nat (regionStart r)))"

text \<open>
  The declaration \<open>d\<close> with the scope \<open>r\<close> has a Method definition among \<open>ds\<close>: one with its
  name, the line of its start and the line of the end of its scope.
\<close>

definition declared :: "SolidityDefinition list \<Rightarrow> jsstring \<Rightarrow> nat \<times> nat \<times> jsstring \<Rightarrow> BlockRegion \<Rightarrow> bool" where
  "declared ds content d r \<longleftrightarrow>
     (case d of (start, brace, nm) \<Rightarrow>
        \<exists>x \<in> set ds. label x = str ''Method'' \<and> name x = nm
          \<and> startLine x = lineOf content (int start) \<and> endLine x = lineOf content (regionEnd r))"

text \<open>What holds of the keys of \<open>seenDefs\<close> during the scan: each stands for a definition
  with its label, its name and the line of its index, and a Method key for one that ends
  on the line where the scope found from that index ends.\<close>

definition defsInv :: "jsstring \<Rightarrow> jsstring \<Rightarrow> ExtractionState \<Rightarrow> bool" where
  "defsInv filePath content st \<longleftrightarrow>
     (\<forall>k \<in> seenDefs st. \<exists>x \<in> set (definitions st).
        label x = fst k \<and> name x = fst (snd k)
        \<and> startLine x = lineOf content (int (snd (snd k)))
        \<and> (fst k = str ''Method'' \<longrightarrow>
             endLine x = lineOf content
               (regionEnd (mkRegion filePath content (fst (snd k)) (snd (snd k))))))"

text \<open>Concrete texts on which the extractors are run below.\<close>

definition aSol :: jsstring where
  "aSol = str ''a.sol''"

definition callsExample :: jsstring where
  "callsExample = str ''function f() { if (f()) g(); }''"

definition unclosedExample :: jsstring where
  "unclosedExample = str ''function f() { g(''"

definition nestedExample :: jsstring where
  "nestedExample = str ''function f(){function g(){h();}}''"

definition parameterCallExample :: jsstring where
  "parameterCallExample = str ''function f(a{h (b}){g();}''"

definition parameterBraceExample :: jsstring where
  "parameterBraceExample = str ''function f(a{b}){ g(); ''"

definition argsExample :: jsstring where
  "argsExample = str ''contract B is A(1) {}''"




text \<open>
  White-space-separated tokens, without the string functions of the code: a text is blank
  when it holds white space only, and \<open>t\<close> is the first token of \<open>e\<close> when \<open>e\<close> is white
  space, then \<open>t\<close>, then nothing or white space and more, \<open>t\<close> being non-empty and free of
  white space.
\<close>

definition blank :: "jsstring \<Rightarrow> bool" where
  "blank e \<longleftrightarrow> (\<forall>c \<in> set e. isSpace c)"

definition isFirstToken :: "jsstring \<Rightarrow> jsstring \<Rightarrow> bool" where
  "isFirstToken t e \<longleftrightarrow>
     t \<noteq> [] \<and> (\<forall>c \<in> set t. \<not> isSpace c)
     \<and> (\<exists>pre post. e = pre @ t @ post \<and> blank pre \<and> (post = [] \<or> isSpace (hd post)))"

text \<open>What holds of the store in every state that the operations reach: the connection is
  never set without the database, and every query of the log was submitted while
  \<open>isKuzuReady\<close> held.\<close>

definition storeInv :: "KuzuState \<Rightarrow> bool" where
  "storeInv st \<longleftrightarrow>
     (conn st \<noteq> None \<longrightarrow> db st \<noteq> None) \<and> (\<forall>e \<in> set (queryLog st). fst (snd e))"

text \<open>
  The ids of the nodes of a graph; a graph without dangling relationships; and extraction
  results in which every call is paired with the id of its originating node (section 3 of
  the spec), the File node of its file or one of the definitions of its file.
\<close>

definition nodeIds :: "KnowledgeGraph \<Rightarrow> node_id set" where
  "nodeIds g = nodeId ` set (nodes g)"

definition noDangling :: "KnowledgeGraph \<Rightarrow> bool" where
  "noDangling g \<longleftrightarrow>
     (\<forall>rel \<in> set (relationships g). relSourceId rel \<in> nodeIds g \<and> relTargetId rel \<in> nodeIds g)"

definition callsOriginate :: "FileResult list \<Rightarrow> bool" where
  "callsOriginate files \<longleftrightarrow>
     (\<forall>fr \<in> set files. \<forall>c \<in> set (calls (snd fr)).
        sourceId c = fileId (fst fr)
        \<or> (\<exists>d \<in> set (definitions (snd fr)). sourceId c = definitionId (fst fr) d))"

section \<open>Properties of the comment normalizer\<close>

lemma length_preserveNewlines: "length (preserveNewlines s) = length s"
  by (simp add: preserveNewlines_def)

lemma length_replaceAll:
  "(\<And>x. length (f x) = length x) \<Longrightarrow> length (replaceAll m f s) = length s"
  by (induction m f s rule: replaceAll.induct) (auto split: option.splits)

lemma length_stripComments: "length (stripComments s) = length s"
  by (simp add: stripComments_def length_replaceAll length_preserveNewlines)

lemma blanked_preserveNewlines: "list_all2 blanked (preserveNewlines s) s"
  by (induction s) (auto simp: preserveNewlines_def blanked_def)

lemma blanked_replaceAll: "list_all2 blanked (replaceAll m preserveNewlines s) s"
proof (induction m preserveNewlines s rule: replaceAll.induct)
  case (1 m)
  then show ?case by simp
next
  case (2 m c cs)
  show ?case
  proof (cases "m (c # cs)")
    case None
    with 2 show ?thesis by (simp add: blanked_def)
  next
    case (Some n)
    show ?thesis
    proof (cases "n = 0")
      case True
      with 2 Some show ?thesis by (simp add: blanked_def)
    next
      case False
      have "list_all2 blanked
              (preserveNewlines (take n (c # cs)) @ replaceAll m preserveNewlines (drop n (c # cs)))
              (take n (c # cs) @ drop n (c # cs))"
        using "2.hyps"(3)[OF Some False] blanked_preserveNewlines
        by (intro list_all2_appendI) auto
      with Some False show ?thesis by simp
    qed
  qed
qed

lemma blanked_trans:
  "list_all2 blanked r t \<Longrightarrow> list_all2 blanked t s \<Longrightarrow> list_all2 blanked r s"
  using list_all2_trans[of blanked blanked blanked r t s] by (auto simp: blanked_def)

lemma blanked_stripComments: "list_all2 blanked (stripComments s) s"
  unfolding stripComments_def
  by (rule blanked_trans[OF blanked_replaceAll blanked_replaceAll])

lemma replaceAll_no_match: "\<not> anyMatch m s \<Longrightarrow> replaceAll m f s = s"
  by (induction s) auto

lemma findStarSlash_blanked:
  "list_all2 blanked r s \<Longrightarrow> findStarSlash s = None \<Longrightarrow> findStarSlash r = None"
proof (induction s arbitrary: r rule: findStarSlash.induct)
  case (1 a b cs)
  from "1.prems"(1) obtain a' b' cs' where r: "r = a' # b' # cs'"
    and ab: "blanked a' a" "blanked b' b" and rest: "list_all2 blanked (b' # cs') (b # cs)"
    by (auto simp: list_all2_Cons2)
  from "1.prems"(2) have n: "\<not> (a = 42 \<and> b = 47)" and f: "findStarSlash (b # cs) = None"
    by (auto split: if_splits)
  from n ab have n': "\<not> (a' = 42 \<and> b' = 47)" by (auto simp: blanked_def)
  from "1.IH"[OF n rest f] n' r show ?case by simp
qed (auto simp: list_all2_Cons2)

lemma matchBlockComment_blanked:
  "list_all2 blanked r s \<Longrightarrow> matchBlockComment s = None \<Longrightarrow> matchBlockComment r = None"
proof (cases "matchBlockComment r")
  case None
  then show ?thesis .
next
  case (Some n)
  assume a: "list_all2 blanked r s" and b: "matchBlockComment s = None"
  from Some obtain cs' where r: "r = 47 # 42 # cs'" and f: "findStarSlash cs' \<noteq> None"
    by (auto simp: matchBlockComment_def split: list.splits if_splits)
  from a r obtain cs where s: "s = 47 # 42 # cs" and l: "list_all2 blanked cs' cs"
    by (auto simp: list_all2_Cons1 blanked_def)
  from b s have "findStarSlash cs = None"
    by (simp add: matchBlockComment_def)
  with findStarSlash_blanked[OF l] f show ?thesis by simp
qed

lemma matchLineComment_blanked:
  "list_all2 blanked r s \<Longrightarrow> matchLineComment s = None \<Longrightarrow> matchLineComment r = None"
  by (auto simp: matchLineComment_def list_all2_Cons2 list_all2_Cons1 blanked_def
      split: list.splits if_splits)

lemma anyMatch_block_blanked:
  "list_all2 blanked r s \<Longrightarrow> \<not> anyMatch matchBlockComment s \<Longrightarrow> \<not> anyMatch matchBlockComment r"
  by (induction r s rule: list_all2_induct)
    (auto dest: matchBlockComment_blanked[rotated] simp: list_all2_Cons2)

lemma anyMatch_append_blank:
  assumes head: "\<And>c cs. m (c # cs) \<noteq> None \<Longrightarrow> c = 47"
    and bl: "\<forall>b \<in> set bs. b \<noteq> 47"
  shows "anyMatch m (bs @ r) = anyMatch m r"
  using bl
proof (induction bs)
  case Nil
  then show ?case by simp
next
  case (Cons b bs)
  have "m (b # bs @ r) = None"
  proof (rule ccontr)
    assume "m (b # bs @ r) \<noteq> None"
    from head[OF this] Cons.prems show False by simp
  qed
  with Cons show ?case by simp
qed

lemma preserveNewlines_no_slash: "\<forall>b \<in> set (preserveNewlines x). b \<noteq> 47"
  by (auto simp: preserveNewlines_def)

lemma no_match_after_replaceAll:
  assumes head: "\<And>c cs. m (c # cs) \<noteq> None \<Longrightarrow> c = 47"
    and mono: "\<And>r s. list_all2 blanked r s \<Longrightarrow> m s = None \<Longrightarrow> m r = None"
    and pos: "\<And>x. m x \<noteq> Some 0"
  shows "\<not> anyMatch m (replaceAll m preserveNewlines s)"
proof (induction s rule: length_induct)
  case (1 s)
  show ?case
  proof (cases s)
    case Nil
    then show ?thesis by simp
  next
    case (Cons c cs)
    show ?thesis
    proof (cases "m (c # cs)")
      case None
      have "list_all2 blanked (c # replaceAll m preserveNewlines cs) (c # cs)"
        using blanked_replaceAll[of m cs] by (simp add: blanked_def)
      from mono[OF this None] have "m (c # replaceAll m preserveNewlines cs) = None" .
      moreover have "\<not> anyMatch m (replaceAll m preserveNewlines cs)"
        using 1 Cons by simp
      ultimately show ?thesis using Cons None by simp
    next
      case (Some n)
      with pos[of "c # cs"] have n: "n \<noteq> 0" by auto
      have "length (drop n (c # cs)) < length s" using n Cons by simp
      with 1 have "\<not> anyMatch m (replaceAll m preserveNewlines (drop n (c # cs)))" by blast
      moreover have "anyMatch m (preserveNewlines (take n (c # cs))
                    @ replaceAll m preserveNewlines (drop n (c # cs)))
                 = anyMatch m (replaceAll m preserveNewlines (drop n (c # cs)))"
      proof (rule anyMatch_append_blank)
        fix a as assume "m (a # as) \<noteq> None"
        then show "a = 47" by (rule head)
      next
        show "\<forall>b \<in> set (preserveNewlines (take n (c # cs))). b \<noteq> 47"
          by (rule preserveNewlines_no_slash)
      qed
      ultimately have "\<not> anyMatch m (preserveNewlines (take n (c # cs))
                    @ replaceAll m preserveNewlines (drop n (c # cs)))" by simp
      with Cons Some n show ?thesis by simp
    qed
  qed
qed

lemma matchBlockComment_head: "matchBlockComment (c # cs) \<noteq> None \<Longrightarrow> c = 47"
  by (auto simp: matchBlockComment_def split: list.splits if_splits)

lemma matchLineComment_head: "matchLineComment (c # cs) \<noteq> None \<Longrightarrow> c = 47"
  by (auto simp: matchLineComment_def split: list.splits if_splits)

lemma matchBlockComment_pos: "matchBlockComment x \<noteq> Some 0"
  by (auto simp: matchBlockComment_def split: list.splits if_splits)

lemma matchLineComment_pos: "matchLineComment x \<noteq> Some 0"
  by (auto simp: matchLineComment_def split: list.splits if_splits)

lemma no_block_after_blockPass:
  "\<not> anyMatch matchBlockComment (replaceAll matchBlockComment preserveNewlines s)"
  by (rule no_match_after_replaceAll
      [OF matchBlockComment_head matchBlockComment_blanked matchBlockComment_pos])

lemma no_line_after_linePass:
  "\<not> anyMatch matchLineComment (replaceAll matchLineComment preserveNewlines s)"
  by (rule no_match_after_replaceAll
      [OF matchLineComment_head matchLineComment_blanked matchLineComment_pos])

lemma no_block_after_stripComments: "\<not> anyMatch matchBlockComment (stripComments s)"
  unfolding stripComments_def
  by (rule anyMatch_block_blanked[OF blanked_replaceAll no_block_after_blockPass])

lemma no_line_after_stripComments: "\<not> anyMatch matchLineComment (stripComments s)"
  unfolding stripComments_def by (rule no_line_after_linePass)

lemma anyMatch_drop: "i < length r \<Longrightarrow> m (drop i r) \<noteq> None \<Longrightarrow> anyMatch m r"
proof (induction r arbitrary: i)
  case Nil
  then show ?case by simp
next
  case (Cons c cs)
  then show ?case by (cases i) auto
qed

lemma findStarSlash_nth:
  "Suc j < length s \<Longrightarrow> s ! j = 42 \<Longrightarrow> s ! Suc j = 47 \<Longrightarrow> findStarSlash s \<noteq> None"
proof (induction s arbitrary: j rule: findStarSlash.induct)
  case (1 a b cs)
  show ?case
  proof (cases j)
    case 0
    with 1 show ?thesis by simp
  next
    case (Suc k)
    with 1 show ?thesis by (cases "a = 42 \<and> b = 47") auto
  qed
qed auto

lemma line_comment_anyMatch:
  assumes "Suc i < length r" "r ! i = 47" "r ! Suc i = 47"
  shows "anyMatch matchLineComment r"
proof -
  have "drop i r = r ! i # r ! Suc i # drop (Suc (Suc i)) r"
    using assms(1) by (simp add: Cons_nth_drop_Suc)
  with assms have "matchLineComment (drop i r) \<noteq> None"
    by (simp add: matchLineComment_def)
  with assms(1) show ?thesis by (intro anyMatch_drop[of i]) auto
qed

lemma block_comment_anyMatch:
  assumes "i + 2 \<le> j" "Suc j < length r"
    and "r ! i = 47" "r ! Suc i = 42" "r ! j = 42" "r ! Suc j = 47"
  shows "anyMatch matchBlockComment r"
proof -
  have "Suc i < length r"
    using assms(1,2) by simp
  then have d: "drop i r = r ! i # r ! Suc i # drop (Suc (Suc i)) r"
    by (simp add: Cons_nth_drop_Suc)
  define k where "k = j - Suc (Suc i)"
  have k: "j = Suc (Suc i) + k"
    using assms(1) by (simp add: k_def)
  have "findStarSlash (drop (Suc (Suc i)) r) \<noteq> None"
  proof (rule findStarSlash_nth[of k])
    show "Suc k < length (drop (Suc (Suc i)) r)" using assms(2) k by simp
    show "drop (Suc (Suc i)) r ! k = 42" using assms(2,5) k by simp
    show "drop (Suc (Suc i)) r ! Suc k = 47" using assms(2,6) k by simp
  qed
  with d assms have "matchBlockComment (drop i r) \<noteq> None"
    by (auto simp: matchBlockComment_def)
  with assms(1,2) show ?thesis by (intro anyMatch_drop[of i]) auto
qed

lemma matchSpans_sound:
  "(i, n) \<in> set (matchSpans m j s) \<Longrightarrow> j \<le> i \<and> 0 < n \<and> m (drop (i - j) s) = Some n"
proof (induction m j s rule: matchSpans.induct)
  case (1 m j)
  then show ?case by simp
next
  case (2 m j c cs)
  show ?case
  proof (cases "m (c # cs)")
    case None
    with 2 have "Suc j \<le> i \<and> 0 < n \<and> m (drop (i - Suc j) cs) = Some n"
      by simp
    moreover then have "i - j = Suc (i - Suc j)" by arith
    ultimately show ?thesis by simp
  next
    case (Some n')
    show ?thesis
    proof (cases "n' = 0")
      case True
      with Some 2 have "Suc j \<le> i \<and> 0 < n \<and> m (drop (i - Suc j) cs) = Some n"
        by simp
      moreover then have "i - j = Suc (i - Suc j)" by arith
      ultimately show ?thesis by simp
    next
      case False
      with Some "2.prems" consider "i = j" "n = n'"
        | "(i, n) \<in> set (matchSpans m (j + n') (drop n' (c # cs)))"
        by auto
      then show ?thesis
      proof cases
        case 1
        with Some False show ?thesis by simp
      next
        case 3: 2
        have h: "j + n' \<le> i \<and> 0 < n \<and> m (drop (i - (j + n')) (drop n' (c # cs))) = Some n"
          by (rule "2.IH"(3)[OF Some False 3])
        then have e: "i - (j + n') + n' = i - j" by arith
        have d: "drop (i - (j + n')) (drop n' (c # cs)) = drop (i - j) (c # cs)"
          by (simp only: drop_drop e)
        from h have "m (drop (i - (j + n')) (drop n' (c # cs))) = Some n" by blast
        then have "m (drop (i - j) (c # cs)) = Some n" by (simp only: d)
        moreover from h have "j \<le> i" "0 < n" by auto
        ultimately show ?thesis by blast
      qed
    qed
  qed
qed

lemma replaceAll_span_blanked:
  "(i, n) \<in> set (matchSpans m j s) \<Longrightarrow> i \<le> j + k \<Longrightarrow> j + k < i + n \<Longrightarrow> k < length s \<Longrightarrow>
     replaceAll m preserveNewlines s ! k = (if s ! k = 10 then 10 else 32)"
proof (induction m j s arbitrary: k rule: matchSpans.induct)
  case (1 m j)
  then show ?case by simp
next
  case (2 m j c cs)
  show ?case
  proof (cases "m (c # cs)")
    case None
    with "2.prems" have mem: "(i, n) \<in> set (matchSpans m (j + 1) cs)" by simp
    from matchSpans_sound[OF mem] "2.prems" obtain k' where k: "k = Suc k'"
      by (cases k) auto
    with "2.IH"(1)[OF None mem, of k'] "2.prems" None show ?thesis by simp
  next
    case (Some n')
    show ?thesis
    proof (cases "n' = 0")
      case True
      with Some "2.prems" have mem: "(i, n) \<in> set (matchSpans m (j + 1) cs)" by simp
      from matchSpans_sound[OF mem] "2.prems" obtain k' where k: "k = Suc k'"
        by (cases k) auto
      with "2.IH"(2)[OF Some True mem, of k'] "2.prems" Some True show ?thesis by simp
    next
      case False
      have r: "replaceAll m preserveNewlines (c # cs)
          = preserveNewlines (take n' (c # cs)) @ replaceAll m preserveNewlines (drop n' (c # cs))"
        using Some False by simp
      show ?thesis
      proof (cases "k < n'")
        case True
        with "2.prems"(4) have "k < length (preserveNewlines (take n' (c # cs)))"
          by (simp add: length_preserveNewlines)
        then have "replaceAll m preserveNewlines (c # cs) ! k
            = preserveNewlines (take n' (c # cs)) ! k"
          unfolding r by (simp add: nth_append)
        also have "\<dots> = (if (c # cs) ! k = 10 then 10 else 32)"
          using True "2.prems"(4) by (simp add: preserveNewlines_def)
        finally show ?thesis .
      next
        case ge: False
        with "2.prems"(4) have len: "length (preserveNewlines (take n' (c # cs))) = n'"
          by (simp add: length_preserveNewlines)
        from Some False "2.prems"(1) consider "i = j" "n = n'"
          | "(i, n) \<in> set (matchSpans m (j + n') (drop n' (c # cs)))"
          by auto
        then show ?thesis
        proof cases
          case 1
          with "2.prems"(3) ge show ?thesis by simp
        next
          case mem: 2
          have "replaceAll m preserveNewlines (drop n' (c # cs)) ! (k - n')
              = (if drop n' (c # cs) ! (k - n') = 10 then 10 else 32)"
            using "2.prems" ge by (intro "2.IH"(3)[OF Some False mem]) auto
          moreover have "replaceAll m preserveNewlines (c # cs) ! k
              = replaceAll m preserveNewlines (drop n' (c # cs)) ! (k - n')"
            unfolding r using ge len by (simp add: nth_append)
          moreover have "drop n' (c # cs) ! (k - n') = (c # cs) ! k"
            using ge "2.prems"(4) by simp
          ultimately show ?thesis by simp
        qed
      qed
    qed
  qed
qed

lemma blanked_keeps_blank:
  assumes "list_all2 blanked r t" "k < length t" "t ! k = 10 \<or> t ! k = 32"
  shows "r ! k = t ! k"
proof -
  from assms(1,2) have "blanked (r ! k) (t ! k)"
    by (simp add: list_all2_conv_all_nth)
  with assms(3) show ?thesis
    by (auto simp: blanked_def)
qed

lemma stripComments_block_span:
  assumes "(i, n) \<in> set (matchSpans matchBlockComment 0 s)" "i \<le> k" "k < i + n" "k < length s"
  shows "stripComments s ! k = (if s ! k = 10 then 10 else 32)"
proof -
  let ?t = "replaceAll matchBlockComment preserveNewlines s"
  from replaceAll_span_blanked[OF assms(1), of k] assms(2-4)
  have t: "?t ! k = (if s ! k = 10 then 10 else 32)"
    by simp
  have "stripComments s ! k = ?t ! k"
    unfolding stripComments_def
    using t assms(4)
    by (intro blanked_keeps_blank[OF blanked_replaceAll])
       (auto simp: length_replaceAll length_preserveNewlines)
  with t show ?thesis by simp
qed

lemma matchLineComment_no_newline:
  assumes "matchLineComment u = Some n" "k < n" "k < length u"
  shows "u ! k \<noteq> 10"
proof -
  from assms(1) obtain cs where u: "u = 47 # 47 # cs"
    and n: "n = 2 + length (takeWhile (\<lambda>c. \<not> isLineTerminator c) cs)"
    by (auto simp: matchLineComment_def split: list.splits if_splits)
  show ?thesis
  proof (cases "k < 2")
    case True
    then have "k = 0 \<or> k = 1" by auto
    with u show ?thesis by auto
  next
    case False
    then obtain k' where k': "k = Suc (Suc k')"
      by (metis Suc_lessI less_2_cases_iff not_less_eq old.nat.exhaust)
    with assms(2) n have lt: "k' < length (takeWhile (\<lambda>c. \<not> isLineTerminator c) cs)"
      by simp
    then have "takeWhile (\<lambda>c. \<not> isLineTerminator c) cs ! k' = cs ! k'"
      by (rule takeWhile_nth)
    moreover from lt have "takeWhile (\<lambda>c. \<not> isLineTerminator c) cs ! k'
        \<in> set (takeWhile (\<lambda>c. \<not> isLineTerminator c) cs)"
      by simp
    ultimately have "\<not> isLineTerminator (cs ! k')"
      by (auto dest: set_takeWhileD)
    then show ?thesis
      using u k' by (auto simp: isLineTerminator_def)
  qed
qed

lemma stripComments_line_span:
  assumes "(i, n) \<in> set (matchSpans matchLineComment 0
                           (replaceAll matchBlockComment preserveNewlines s))"
    and "i \<le> k" "k < i + n" "k < length s"
  shows "stripComments s ! k = 32"
proof -
  let ?t = "replaceAll matchBlockComment preserveNewlines s"
  have len: "length ?t = length s"
    by (simp add: length_replaceAll length_preserveNewlines)
  from matchSpans_sound[OF assms(1)] have m: "matchLineComment (drop i ?t) = Some n"
    by simp
  have "drop i ?t ! (k - i) \<noteq> 10"
    using assms(2-4) len by (intro matchLineComment_no_newline[OF m]) auto
  then have "?t ! k \<noteq> 10"
    using assms(2,4) len by simp
  moreover from replaceAll_span_blanked[OF assms(1), of k] assms(2-4) len
  have "stripComments s ! k = (if ?t ! k = 10 then 10 else 32)"
    by (simp add: stripComments_def)
  ultimately show ?thesis by simp
qed

text \<open>
  Claim C3, as the code has it. For every input the normalizer returns a text of the same
  length with the newlines at the same places, which differs from the input only where a
  non-newline code unit became a space. Every code unit of every terminated block comment
  of the input is blanked (a newline kept), and so is every code unit of every line
  comment of what the block pass leaves; no \<^verbatim>\<open>//\<close> and no terminated block comment (a
  \<^verbatim>\<open>/*\<close> with a \<^verbatim>\<open>*/\<close> behind it) is left in the result. A \<^verbatim>\<open>/*\<close> that is never closed is
  no comment for the normalizer: see \<open>stripComments_unterminated_kept\<close>.
\<close>

theorem stripComments_blanks_comments:
  "length (stripComments s) = length s
   \<and> (\<forall>i<length s. (stripComments s ! i = 10) = (s ! i = 10))
   \<and> (\<forall>i<length s. stripComments s ! i = s ! i \<or> stripComments s ! i = 32)
   \<and> (\<forall>span \<in> set (matchSpans matchBlockComment 0 s).
        \<forall>k. fst span \<le> k \<and> k < fst span + snd span \<and> k < length s
          \<longrightarrow> stripComments s ! k = (if s ! k = 10 then 10 else 32))
   \<and> (\<forall>span \<in> set (matchSpans matchLineComment 0
                        (replaceAll matchBlockComment preserveNewlines s)).
        \<forall>k. fst span \<le> k \<and> k < fst span + snd span \<and> k < length s
          \<longrightarrow> stripComments s ! k = 32)
   \<and> \<not> (\<exists>i. Suc i < length s \<and> stripComments s ! i = 47 \<and> stripComments s ! Suc i = 47)
   \<and> \<not> (\<exists>i j. i + 2 \<le> j \<and> Suc j < length s
            \<and> stripComments s ! i = 47 \<and> stripComments s ! Suc i = 42
            \<and> stripComments s ! j = 42 \<and> stripComments s ! Suc j = 47)"
proof (intro conjI)
  show "length (stripComments s) = length s"
    by (rule length_stripComments)
  have b: "\<And>i. i < length s \<Longrightarrow> blanked (stripComments s ! i) (s ! i)"
    using blanked_stripComments[of s] by (simp add: list_all2_conv_all_nth)
  show "\<forall>i<length s. (stripComments s ! i = 10) = (s ! i = 10)"
  proof (intro allI impI)
    fix i assume "i < length s"
    from b[OF this] show "(stripComments s ! i = 10) = (s ! i = 10)"
      by (auto simp: blanked_def)
  qed
  show "\<forall>i<length s. stripComments s ! i = s ! i \<or> stripComments s ! i = 32"
  proof (intro allI impI)
    fix i assume "i < length s"
    from b[OF this] show "stripComments s ! i = s ! i \<or> stripComments s ! i = 32"
      by (auto simp: blanked_def)
  qed
  show "\<forall>span \<in> set (matchSpans matchBlockComment 0 s).
        \<forall>k. fst span \<le> k \<and> k < fst span + snd span \<and> k < length s
          \<longrightarrow> stripComments s ! k = (if s ! k = 10 then 10 else 32)"
  proof (intro ballI allI impI)
    fix span k
    assume "span \<in> set (matchSpans matchBlockComment 0 s)"
      and "fst span \<le> k \<and> k < fst span + snd span \<and> k < length s"
    then show "stripComments s ! k = (if s ! k = 10 then 10 else 32)"
      using stripComments_block_span[of "fst span" "snd span" s k] by simp
  qed
  show "\<forall>span \<in> set (matchSpans matchLineComment 0
                        (replaceAll matchBlockComment preserveNewlines s)).
        \<forall>k. fst span \<le> k \<and> k < fst span + snd span \<and> k < length s
          \<longrightarrow> stripComments s ! k = 32"
  proof (intro ballI allI impI)
    fix span k
    assume "span \<in> set (matchSpans matchLineComment 0
                          (replaceAll matchBlockComment preserveNewlines s))"
      and "fst span \<le> k \<and> k < fst span + snd span \<and> k < length s"
    then show "stripComments s ! k = 32"
      using stripComments_line_span[of "fst span" "snd span" s k] by simp
  qed
  show "\<not> (\<exists>i. Suc i < length s \<and> stripComments s ! i = 47 \<and> stripComments s ! Suc i = 47)"
    using line_comment_anyMatch[of _ "stripComments s"] no_line_after_stripComments[of s]
    by (auto simp: length_stripComments)
  show "\<not> (\<exists>i j. i + 2 \<le> j \<and> Suc j < length s
            \<and> stripComments s ! i = 47 \<and> stripComments s ! Suc i = 42
            \<and> stripComments s ! j = 42 \<and> stripComments s ! Suc j = 47)"
    using block_comment_anyMatch[of _ _ "stripComments s"] no_block_after_stripComments[of s]
    by (auto simp: length_stripComments)
qed

theorem stripComments_blanks_comments_witness:
  "stripComments commentExample = str ''a     c   ''
   \<and> matchSpans matchBlockComment 0 commentExample = [(1, 5)]
   \<and> stripComments commentExample ! 3 = 32
   \<and> length (stripComments commentExample) = 10"
proof -
  have e: "stripComments commentExample = str ''a     c   ''"
    by (simp add: commentExample_def stripComments_def matchBlockComment_def
        matchLineComment_def preserveNewlines_def isLineTerminator_def)
  have sp: "matchSpans matchBlockComment 0 commentExample = [(1, 5)]"
    by (simp add: commentExample_def matchBlockComment_def)
  have len: "length commentExample = 10" and c: "commentExample ! 3 \<noteq> 10"
    by (simp_all add: commentExample_def)
  have "(1, 5) \<in> set (matchSpans matchBlockComment 0 commentExample)"
    by (simp add: sp)
  with stripComments_blanks_comments[of commentExample]
  have "fst (1::nat, 5::nat) \<le> 3 \<and> 3 < fst (1::nat, 5::nat) + snd (1::nat, 5::nat)
          \<and> 3 < length commentExample
        \<longrightarrow> stripComments commentExample ! 3 = (if commentExample ! 3 = 10 then 10 else 32)"
    by blast
  with len c have "stripComments commentExample ! 3 = 32"
    by simp
  with e sp show ?thesis
    by simp
qed

text \<open>
  Claim C3, as stated, fails: the text \<^verbatim>\<open>/* a\<close> is an unterminated block comment, and the
  normalizer returns it unchanged, so what is inside is not blanked.
\<close>

theorem stripComments_unterminated_kept:
  "stripComments (str ''/* a'') = str ''/* a''"
  by (simp add: stripComments_def matchBlockComment_def matchLineComment_def)

text \<open>
  Claim C10. The normalizer is idempotent: a second pass finds neither a terminated block
  comment nor a line comment in the result of the first.
\<close>

theorem stripComments_idempotent: "stripComments (stripComments s) = stripComments s"
proof -
  have "replaceAll matchBlockComment preserveNewlines (stripComments s) = stripComments s"
    by (rule replaceAll_no_match[OF no_block_after_stripComments])
  moreover have "replaceAll matchLineComment preserveNewlines (stripComments s) = stripComments s"
    by (rule replaceAll_no_match[OF no_line_after_stripComments])
  ultimately show ?thesis
    by (simp add: stripComments_def)
qed


section \<open>Properties of the brace scan\<close>

lemma braceBalance_Cons:
  "braceBalance (c # cs) = (if c = 123 then 1 else if c = 125 then - 1 else 0) + braceBalance cs"
  by (simp add: braceBalance_def)

lemma all_less_Suc_shift: "(\<forall>k<Suc n. P k) = (P 0 \<and> (\<forall>k<n. P (Suc k)))"
  by (auto simp: less_Suc_eq_0_disj)

lemma scanBraces_None:
  "(scanBraces depth i s = None)
     = (\<forall>k<length s. s ! k = 125 \<longrightarrow> depth + braceBalance (take (Suc k) s) \<noteq> 0)"
proof (induction depth i s rule: scanBraces.induct)
  case (1 depth i)
  then show ?case by simp
next
  case (2 depth i ch cs)
  note split = all_less_Suc_shift
  show ?case
  proof (cases "ch = 123")
    case True
    with 2 show ?thesis
      by (simp add: split braceBalance_Cons add.assoc)
  next
    case False
    note not_open = this
    show ?thesis
    proof (cases "ch = 125")
      case True
      show ?thesis
      proof (cases "depth - 1 = 0")
        case z: True
        with True show ?thesis
          by (auto simp: braceBalance_Cons braceBalance_def intro: exI[of _ 0])
      next
        case nz: False
        with True not_open "2.IH"(2) show ?thesis
          by (simp add: split braceBalance_Cons) (simp add: braceBalance_def algebra_simps)
      qed
    next
      case False
      with not_open 2 show ?thesis
        by (simp add: split braceBalance_Cons)
    qed
  qed
qed

lemma scanBraces_Some:
  "scanBraces depth i s = Some j \<Longrightarrow>
     i \<le> j \<and> j - i < length s \<and> s ! (j - i) = 125
     \<and> depth + braceBalance (take (Suc (j - i)) s) = 0"
proof (induction depth i s rule: scanBraces.induct)
  case (1 depth i)
  then show ?case by simp
next
  case (2 depth i ch cs)
  show ?case
  proof (cases "ch = 123")
    case True
    with 2 have "Suc i \<le> j \<and> j - Suc i < length cs \<and> cs ! (j - Suc i) = 125
          \<and> depth + 1 + braceBalance (take (Suc (j - Suc i)) cs) = 0"
      by simp
    moreover then have "j - i = Suc (j - Suc i)" by arith
    ultimately show ?thesis using True
      by (simp add: braceBalance_Cons)
  next
    case False
    note not_open = this
    show ?thesis
    proof (cases "ch = 125")
      case True
      show ?thesis
      proof (cases "depth - 1 = 0")
        case z: True
        with True "2.prems" show ?thesis
          by (simp add: braceBalance_Cons braceBalance_def)
      next
        case nz: False
        with True not_open 2 have "Suc i \<le> j \<and> j - Suc i < length cs \<and> cs ! (j - Suc i) = 125
          \<and> depth - 1 + braceBalance (take (Suc (j - Suc i)) cs) = 0"
          by simp
        moreover then have "j - i = Suc (j - Suc i)" by arith
        ultimately show ?thesis using True
          by (simp add: braceBalance_Cons)
      qed
    next
      case False
      with not_open 2 have "Suc i \<le> j \<and> j - Suc i < length cs \<and> cs ! (j - Suc i) = 125
          \<and> depth + braceBalance (take (Suc (j - Suc i)) cs) = 0"
        by simp
      moreover then have "j - i = Suc (j - Suc i)" by arith
      ultimately show ?thesis using False not_open
        by (simp add: braceBalance_Cons)
    qed
  qed
qed

lemma findBlockEnd_unmatched_aux:
  assumes "\<forall>j. \<not> closesAt source openBraceIndex j"
  shows "findBlockEnd source openBraceIndex = int (length source) - 1"
proof -
  have "scanBraces 0 openBraceIndex (drop openBraceIndex source) = None"
  proof (subst scanBraces_None, intro allI impI)
    fix k assume k: "k < length (drop openBraceIndex source)"
      and c: "drop openBraceIndex source ! k = 125"
    from assms have "\<not> closesAt source openBraceIndex (openBraceIndex + k)" by blast
    with k c show "0 + braceBalance (take (Suc k) (drop openBraceIndex source)) \<noteq> 0"
      by (simp add: closesAt_def)
  qed
  then show ?thesis by (simp add: findBlockEnd_def)
qed

lemma findBlockEnd_matched:
  assumes "findBlockEnd source openBraceIndex \<noteq> int (length source) - 1"
  shows "closesAt source openBraceIndex (nat (findBlockEnd source openBraceIndex))"
proof -
  from assms obtain j where j: "scanBraces 0 openBraceIndex (drop openBraceIndex source) = Some j"
    by (auto simp: findBlockEnd_def split: option.splits)
  from scanBraces_Some[OF j] j show ?thesis
    by (auto simp: closesAt_def findBlockEnd_def Suc_diff_le)
qed

section \<open>Invariants of the scan\<close>

lemma fold_preserves:
  assumes "P st" and "\<And>x s. P s \<Longrightarrow> P (f x s)"
  shows "P (fold f xs st)"
  using assms(1) by (induction xs arbitrary: st) (auto intro: assms(2))

lemma indexFrom_cases:
  "indexFrom ch i s = - 1 \<or> (\<exists>k<length s. indexFrom ch i s = int (i + k) \<and> s ! k = ch)"
proof (induction ch i s rule: indexFrom.induct)
  case (1 ch i)
  then show ?case by simp
next
  case (2 ch i c cs)
  show ?case
  proof (cases "c = ch")
    case True
    then show ?thesis by (auto intro: exI[of _ 0])
  next
    case False
    with 2 show ?thesis
      by (auto intro: exI[of _ "Suc k" for k])
  qed
qed

lemma indexOf_nonneg:
  assumes "0 \<le> indexOf s ch start"
  shows "nat (indexOf s ch start) < length s \<and> s ! nat (indexOf s ch start) = ch
         \<and> start \<le> nat (indexOf s ch start)"
proof -
  from indexFrom_cases[of ch start "drop start s"] assms
  obtain k where k: "k < length (drop start s)" "indexOf s ch start = int (start + k)"
    "drop start s ! k = ch"
    by (auto simp: indexOf_def)
  from k(2) have n: "nat (indexOf s ch start) = start + k" by simp
  from k(1,3) show ?thesis unfolding n by (simp add: add.commute)
qed

lemma addDef_blockRegions [simp]:
  "blockRegions (addDef content lbl nm i e j st) = blockRegions st"
  by (simp add: addDef_def)

lemma addDef_definitions_mono:
  "set (definitions st) \<subseteq> set (definitions (addDef content lbl nm i e j st))"
  by (auto simp: addDef_def)

lemma addDef_scanInv:
  assumes "scanInv filePath content st"
  shows "scanInv filePath content (addDef content lbl nm i e j st)"
  using assms by (auto simp: scanInv_def addDef_def hasMethod_def)

lemma addDef_has:
  assumes "scanInv filePath content st"
  shows "\<exists>d \<in> set (definitions (addDef content lbl nm i e j st)). label d = lbl \<and> name d = nm"
  using assms by (fastforce simp: scanInv_def addDef_def)

lemma importStep_scanInv:
  "scanInv filePath content st \<Longrightarrow> scanInv filePath content (importStep m st)"
  by (simp add: scanInv_def importStep_def hasMethod_def)

lemma heritage_update_scanInv:
  "scanInv filePath content st \<Longrightarrow> scanInv filePath content (st\<lparr>heritage := h\<rparr>)"
  by (simp add: scanInv_def hasMethod_def)

lemma contractLikeStep_scanInv:
  "scanInv filePath content st \<Longrightarrow> scanInv filePath content (contractLikeStep content m st)"
  by (cases m) (simp add: contractLikeStep_def Let_def heritage_update_scanInv addDef_scanInv)

lemma plainDefStep_scanInv:
  "scanInv filePath content st \<Longrightarrow> scanInv filePath content (plainDefStep content lbl m st)"
  by (simp add: plainDefStep_def addDef_scanInv)

lemma methodStep_scanInv:
  assumes "scanInv filePath content st"
  shows "scanInv filePath content (methodStep filePath content nm start e st)"
proof -
  define openBrace where "openBrace = indexOf content 123 start"
  define closeBrace where
    "closeBrace = (if openBrace \<ge> 0 then findBlockEnd content (nat openBrace) else int start)"
  define st' where "st' = addDef content (str ''Method'') nm start e closeBrace st"
  define r where "r = \<lparr>regionName = nm,
      regionSourceId = generateId (str ''Method'') (filePath @ str '':'' @ nm),
      regionStart = openBrace, regionEnd = closeBrace\<rparr>"
  have eq: "methodStep filePath content nm start e st = st'\<lparr>blockRegions := blockRegions st' @ [r]\<rparr>"
    by (simp add: methodStep_def Let_def openBrace_def closeBrace_def st'_def r_def)
  have inv': "scanInv filePath content st'"
    unfolding st'_def by (rule addDef_scanInv[OF assms])
  have has: "hasMethod st' nm"
    unfolding st'_def hasMethod_def by (rule addDef_has[OF assms])
  have ok: "regionOK filePath content r"
    using indexOf_nonneg[of content 123 start]
    by (auto simp: regionOK_def r_def openBrace_def closeBrace_def)
  from inv' has ok show ?thesis
    unfolding eq by (auto simp: scanInv_def hasMethod_def r_def)
qed

lemma modifierStep_scanInv:
  "scanInv filePath content st \<Longrightarrow> scanInv filePath content (modifierStep filePath content m st)"
  by (simp add: modifierStep_def methodStep_scanInv)

lemma functionStep_scanInv:
  "scanInv filePath content st \<Longrightarrow> scanInv filePath content (functionStep filePath content m st)"
  by (cases m) (simp add: functionStep_def methodStep_scanInv)

lemma constructorStep_scanInv:
  "scanInv filePath content st \<Longrightarrow> scanInv filePath content (constructorStep filePath content m st)"
  by (simp add: constructorStep_def methodStep_scanInv)

lemma scanSolidity_scanInv:
  "scanInv filePath (stripComments source) (scanSolidity filePath source)"
proof -
  have upd: "\<And>st c. scanInv filePath (stripComments source) st
      \<Longrightarrow> scanInv filePath (stripComments source) (st\<lparr>calls := c\<rparr>)"
    by (simp add: scanInv_def hasMethod_def)
  have init: "scanInv filePath (stripComments source)
      \<lparr>definitions = [], imports' = [], calls = [], heritage = [], seenDefs = {}, blockRegions = []\<rparr>"
    by (simp add: scanInv_def)
  show ?thesis
    unfolding scanSolidity_def Let_def
    by (intro upd fold_preserves[where P = "scanInv filePath (stripComments source)"]
        init importStep_scanInv contractLikeStep_scanInv plainDefStep_scanInv
        modifierStep_scanInv functionStep_scanInv constructorStep_scanInv)
qed

lemma scanSolidity_calls:
  "calls (scanSolidity filePath source)
     = concat (map (regionCalls (stripComments source)) (blockRegions (scanSolidity filePath source)))"
  by (simp add: scanSolidity_def Let_def)

lemma extractSolidityArtifacts_fields:
  "calls (extractSolidityArtifacts filePath source) = calls (scanSolidity filePath source)"
  "definitions (extractSolidityArtifacts filePath source) = definitions (scanSolidity filePath source)"
  "heritage (extractSolidityArtifacts filePath source) = heritage (scanSolidity filePath source)"
  "imports' (extractSolidityArtifacts filePath source) = imports' (scanSolidity filePath source)"
  by (simp_all add: extractSolidityArtifacts_def SolidityExtractionResult.truncate_def)

lemma regionCalls_member:
  assumes "c \<in> set (regionCalls content r)"
  shows "0 \<le> regionStart r \<and> regionStart r < regionEnd r \<and> sourceId c = regionSourceId r
     \<and> calledName c \<notin> set CALL_KEYWORDS \<and> calledName c \<noteq> regionName r
     \<and> (\<exists>i. (i, calledName c)
            \<in> set (matchAll callRe (slice content (regionStart r) (regionEnd r + 1))))"
proof -
  from assms have g: "\<not> (regionStart r < 0 \<or> regionEnd r \<le> regionStart r)"
    by (auto simp: regionCalls_def split: if_splits)
  with assms obtain m where m: "m \<in> set (matchAll callRe (slice content (regionStart r) (regionEnd r + 1)))"
      "snd m \<notin> set CALL_KEYWORDS" "snd m \<noteq> regionName r"
      "c = \<lparr>calledName = snd m, sourceId = regionSourceId r\<rparr>"
    by (auto simp: regionCalls_def Let_def)
  then have "(fst m, calledName c) \<in> set (matchAll callRe (slice content (regionStart r) (regionEnd r + 1)))"
    by simp
  then have "\<exists>i. (i, calledName c)
      \<in> set (matchAll callRe (slice content (regionStart r) (regionEnd r + 1)))" ..
  with g m(2,3,4) show ?thesis by simp
qed

lemma artifacts_call_region:
  assumes "c \<in> set (calls (extractSolidityArtifacts filePath source))"
  shows "\<exists>r \<in> set (blockRegions (scanSolidity filePath source)).
           c \<in> set (regionCalls (stripComments source) r)"
  using assms by (auto simp: extractSolidityArtifacts_fields scanSolidity_calls)

lemma method_id_not_file_id:
  "generateId (str ''Method'') x \<noteq> generateId (str ''File'') y"
  by (simp add: generateId_def)

lemma featureCalls_member:
  "c \<in> set (featureCalls filePath content) \<Longrightarrow>
     sourceId c = generateId (str ''File'') filePath \<and> calledName c \<notin> set KEYWORD_CALL_EXCLUSIONS"
  by (auto simp: featureCalls_def Let_def)

lemma extractSolidityFeatures_calls:
  "calls (extractSolidityFeatures filePath content) = featureCalls filePath content"
  by (simp add: extractSolidityFeatures_def Let_def)

section \<open>Evaluating the patterns on concrete texts\<close>

lemmas re_defs = wordBoundary_def lit_def spaces0_def spaces1_def ident_def parens_def
  isSpace_def isIdentStart_def isWordChar_def notBraceSemi_def isQuote_def isLineTerminator_def
  matchAll_def firstMatch_def test_def

lemmas artifact_re_defs = importRe_def contractLikeRe_def contractKind_def keywordNameRe_def
  modifierRe_def functionRe_def constructorRe_def signatureTail_def callRe_def exportedRe_def
  isRe_def optVirtual_def optOverride_def quotedPath_def fromClause_def

lemmas step_defs = importStep_def contractLikeStep_def plainDefStep_def methodStep_def
  modifierStep_def functionStep_def constructorStep_def addDef_def lineOf_def indexOf_def
  findBlockEnd_def regionCalls_def slice_def sliceIndex_def heritageOfSuffix_def trim_def
  firstSplitToken_def CALL_KEYWORDS_def generateId_def Let_def

lemma no_comment_unchanged:
  "\<not> anyMatch matchBlockComment s \<Longrightarrow> \<not> anyMatch matchLineComment s \<Longrightarrow> stripComments s = s"
  by (simp add: stripComments_def replaceAll_no_match)

section \<open>The result lists in terms of the matches\<close>

text \<open>The regions are those of the modifier, function and constructor matches, in this order.\<close>

lemma methodStep_blockRegions:
  "blockRegions (methodStep filePath content nm start e st) =
     blockRegions st @ [mkRegion filePath content nm start]"
  by (simp add: methodStep_def mkRegion_def Let_def)

lemma fold_modifierStep_blockRegions:
  "blockRegions (fold (modifierStep filePath content) ms st) =
     blockRegions st @ map (\<lambda>m. mkRegion filePath content (snd m) (fst m)) ms"
  by (induction ms arbitrary: st) (simp_all add: modifierStep_def methodStep_blockRegions)

lemma fold_functionStep_blockRegions:
  "blockRegions (fold (functionStep filePath content) ms st) =
     blockRegions st @ map (\<lambda>m. mkRegion filePath content (fst (snd m)) (fst m)) ms"
  by (induction ms arbitrary: st)
    (simp_all add: functionStep_def methodStep_blockRegions split: prod.splits)

lemma fold_constructorStep_blockRegions:
  "blockRegions (fold (constructorStep filePath content) ms st) =
     blockRegions st @ map (\<lambda>m. mkRegion filePath content (str ''constructor'') (fst m)) ms"
  by (induction ms arbitrary: st) (simp_all add: constructorStep_def methodStep_blockRegions)

lemma fold_importStep_blockRegions:
  "blockRegions (fold importStep ms st) = blockRegions st"
  by (induction ms arbitrary: st) (simp_all add: importStep_def)

lemma fold_contractLikeStep_blockRegions:
  "blockRegions (fold (contractLikeStep content) ms st) = blockRegions st"
  by (induction ms arbitrary: st) (simp_all add: contractLikeStep_def Let_def split: prod.splits)

lemma fold_plainDefStep_blockRegions:
  "blockRegions (fold (plainDefStep content lbl) ms st) = blockRegions st"
  by (induction ms arbitrary: st) (simp_all add: plainDefStep_def)

lemma scanSolidity_blockRegions:
  "blockRegions (scanSolidity filePath source) =
     (let content = stripComments source in
      map (\<lambda>m. mkRegion filePath content (snd m) (fst m)) (matchAll modifierRe content)
      @ map (\<lambda>m. mkRegion filePath content (fst (snd m)) (fst m)) (matchAll functionRe content)
      @ map (\<lambda>m. mkRegion filePath content (str ''constructor'') (fst m))
          (matchAll constructorRe content))"
  by (simp add: scanSolidity_def Let_def fold_modifierStep_blockRegions
      fold_functionStep_blockRegions fold_constructorStep_blockRegions
      fold_importStep_blockRegions fold_contractLikeStep_blockRegions
      fold_plainDefStep_blockRegions)

text \<open>The heritage records are those of the contract-like matches.\<close>

lemma addDef_heritage [simp]: "heritage (addDef content lbl nm i e j st) = heritage st"
  by (simp add: addDef_def)

lemma fold_contractLikeStep_heritage:
  "heritage (fold (contractLikeStep content) ms st) =
     heritage st @ concat (map (\<lambda>m. heritageOfSuffix (fst (snd (snd m))) (snd (snd (snd m)))) ms)"
  by (induction ms arbitrary: st) (simp_all add: contractLikeStep_def Let_def split: prod.splits)

lemma fold_importStep_heritage: "heritage (fold importStep ms st) = heritage st"
  by (induction ms arbitrary: st) (simp_all add: importStep_def)

lemma fold_plainDefStep_heritage:
  "heritage (fold (plainDefStep content lbl) ms st) = heritage st"
  by (induction ms arbitrary: st) (simp_all add: plainDefStep_def)

lemma methodStep_heritage [simp]:
  "heritage (methodStep filePath content nm start e st) = heritage st"
  by (simp add: methodStep_def Let_def)

lemma fold_modifierStep_heritage:
  "heritage (fold (modifierStep filePath content) ms st) = heritage st"
  by (induction ms arbitrary: st) (simp_all add: modifierStep_def)

lemma fold_functionStep_heritage:
  "heritage (fold (functionStep filePath content) ms st) = heritage st"
  by (induction ms arbitrary: st) (simp_all add: functionStep_def split: prod.splits)

lemma fold_constructorStep_heritage:
  "heritage (fold (constructorStep filePath content) ms st) = heritage st"
  by (induction ms arbitrary: st) (simp_all add: constructorStep_def)

lemma scanSolidity_heritage:
  "heritage (scanSolidity filePath source) =
     concat (map (\<lambda>m. heritageOfSuffix (fst (snd (snd m))) (snd (snd (snd m))))
       (matchAll contractLikeRe (stripComments source)))"
  by (simp add: scanSolidity_def Let_def fold_contractLikeStep_heritage fold_importStep_heritage
      fold_plainDefStep_heritage fold_modifierStep_heritage fold_functionStep_heritage
      fold_constructorStep_heritage)

lemma strip_callsExample: "stripComments callsExample = callsExample"
  by (rule no_comment_unchanged)
    (simp_all add: callsExample_def matchBlockComment_def matchLineComment_def)

lemma modifiers_callsExample: "matchAll modifierRe callsExample = []"
  by (simp add: callsExample_def re_defs modifierRe_def)

lemma functions_callsExample: "matchAll functionRe callsExample = [(0, str ''f'', [])]"
  by (simp add: callsExample_def re_defs functionRe_def signatureTail_def)

lemma constructors_callsExample: "matchAll constructorRe callsExample = []"
  by (simp add: callsExample_def re_defs constructorRe_def signatureTail_def)

lemma region_callsExample:
  "mkRegion aSol callsExample (str ''f'') 0 =
     \<lparr>regionName = str ''f'',
      regionSourceId = generateId (str ''Method'') (aSol @ str '':f''),
      regionStart = 13, regionEnd = 29\<rparr>"
  by (simp add: callsExample_def mkRegion_def indexOf_def findBlockEnd_def)

lemma body_callsExample:
  "matchAll callRe (slice callsExample 13 30) = [(2, str ''if''), (6, str ''f''), (11, str ''g'')]"
  by (simp add: callsExample_def slice_def sliceIndex_def re_defs callRe_def)

lemma regions_callsExample:
  "blockRegions (scanSolidity aSol callsExample) =
     [\<lparr>regionName = str ''f'',
       regionSourceId = generateId (str ''Method'') (aSol @ str '':f''),
       regionStart = 13, regionEnd = 29\<rparr>]"
  by (simp add: scanSolidity_blockRegions strip_callsExample modifiers_callsExample
      functions_callsExample constructors_callsExample region_callsExample[simplified])

lemma calls_callsExample:
  "calls (extractSolidityArtifacts aSol callsExample) =
     [\<lparr>calledName = str ''g'', sourceId = generateId (str ''Method'') (aSol @ str '':f'')\<rparr>]"
  by (simp add: extractSolidityArtifacts_fields scanSolidity_calls regions_callsExample
      strip_callsExample regionCalls_def body_callsExample CALL_KEYWORDS_def)

section \<open>Matches and their extent\<close>

text \<open>Every match that the scan reports at an index is a match of the pattern there, the
  pattern being given the code unit before that index.\<close>

lemma before_Suc: "k < length content \<Longrightarrow> before content (Suc k) = Some (content ! k)"
  by (simp add: before_def)

lemma matchAllFrom_sound:
  "(i, g) \<in> set (matchAllFrom m k prev s) \<Longrightarrow> s = drop k content \<Longrightarrow> prev = before content k \<Longrightarrow>
     k \<le> i \<and> i < length content \<and> (\<exists>n. m (before content i) (drop i content) = Some (n, g))"
proof (induction m k prev s rule: matchAllFrom.induct)
  case (1 m i prev)
  then show ?case by simp
next
  case (2 m k prev c cs)
  from "2.prems"(2) have k: "k < length content"
    by (metis drop_eq_Nil list.distinct(1) not_le)
  from "2.prems"(2) have c: "content ! k = c" and cs: "cs = drop (Suc k) content"
    by (metis Cons_nth_drop_Suc k list.inject)+
  have next1: "Some c = before content (k + 1)"
    using k c by (simp add: before_def)
  show ?case
  proof (cases "m prev (c # cs)")
    case None
    with "2.prems"(1) have "(i, g) \<in> set (matchAllFrom m (k + 1) (Some c) cs)"
      by simp
    from "2.IH"(1)[OF None this _ next1] cs show ?thesis
      by auto
  next
    case (Some a)
    obtain n g' where a: "a = (n, g')" by (cases a)
    have here: "m (before content k) (drop k content) = Some (n, g')"
      using Some a "2.prems"(2,3) by simp
    show ?thesis
    proof (cases "n = 0")
      case True
      with "2.prems"(1) Some a
      have "(i, g) = (k, g') \<or> (i, g) \<in> set (matchAllFrom m (k + 1) (Some c) cs)"
        by simp
      then show ?thesis
      proof
        assume "(i, g) = (k, g')"
        with here k show ?thesis by auto
      next
        assume "(i, g) \<in> set (matchAllFrom m (k + 1) (Some c) cs)"
        from "2.IH"(2)[OF Some a[symmetric] True this _ next1] cs show ?thesis
          by auto
      qed
    next
      case False
      with "2.prems"(1) Some a
      have "(i, g) = (k, g')
          \<or> (i, g) \<in> set (matchAllFrom m (k + n) (Some (last (take n (c # cs)))) (drop n (c # cs)))"
        by simp
      then show ?thesis
      proof
        assume "(i, g) = (k, g')"
        with here k show ?thesis by auto
      next
        assume in_rest: "(i, g) \<in> set (matchAllFrom m (k + n) (Some (last (take n (c # cs)))) (drop n (c # cs)))"
        then have "drop n (c # cs) \<noteq> []"
          by auto
        then have n: "n < length (c # cs)"
          by simp
        with "2.prems"(2) have kn: "k + n < length content"
          by (metis length_drop less_diff_conv add.commute)
        from False n have "last (take n (c # cs)) = (c # cs) ! (n - 1)"
          by (simp add: last_conv_nth min_def)
        also have "\<dots> = content ! (k + (n - 1))"
          using "2.prems"(2) kn by (metis nth_drop add_lessD1 less_or_eq_imp_le)
        finally have nextn: "Some (last (take n (c # cs))) = before content (k + n)"
          using False by (simp add: before_def)
        have rest: "drop n (c # cs) = drop (k + n) content"
          using "2.prems"(2) by (simp add: add.commute)
        from "2.IH"(3)[OF Some a[symmetric] False in_rest rest nextn] show ?thesis
          by auto
      qed
    qed
  qed
qed

lemma matchAll_sound:
  assumes "(i, g) \<in> set (matchAll m content)"
  shows "i < length content \<and> m (before content i) (drop i content) = Some (matchLength m content i, g)"
proof -
  from matchAllFrom_sound[of i g m 0 None content content] assms
  obtain n where "i < length content" "m (before content i) (drop i content) = Some (n, g)"
    by (auto simp: matchAll_def before_def)
  then show ?thesis
    by (simp add: matchLength_def)
qed

section \<open>The opening brace of a declaration\<close>

text \<open>Each building block returns the text behind what it has matched, a suffix of the text
  it was given. So the last code unit of a match of the modifier, function or constructor
  pattern is the opening brace that the pattern ends with.\<close>

lemma lit_Some: "lit w s = Some r \<Longrightarrow> s = str w @ r"
proof -
  assume "lit w s = Some r"
  then have "take (length w) s = str w" "r = drop (length w) s"
    by (auto simp: lit_def split: if_splits)
  then show ?thesis
    by (metis append_take_drop_id)
qed

lemma spaces0_suffix: "\<exists>p. s = p @ spaces0 s"
  unfolding spaces0_def by (metis takeWhile_dropWhile_id)

lemma spaces1_Some: "spaces1 s = Some r \<Longrightarrow> \<exists>p. s = p @ r"
proof -
  assume a: "spaces1 s = Some r"
  then obtain c cs where s: "s = c # cs" and r: "r = spaces0 cs"
    by (cases s) (auto simp: spaces1_def split: if_splits)
  from spaces0_suffix[of cs] obtain p where "cs = p @ spaces0 cs" ..
  with s r have "s = (c # p) @ r" by simp
  then show ?thesis ..
qed

lemma ident_Some: "ident s = Some (nm, r) \<Longrightarrow> s = nm @ r"
  by (cases s) (auto simp: ident_def split: if_splits)

lemma parens_Some: "parens s = Some r \<Longrightarrow> \<exists>p. s = p @ r"
proof -
  assume a: "parens s = Some r"
  then obtain cs x where s: "s = 40 # cs" and d: "dropWhile (\<lambda>x. x \<noteq> 41) cs = x # r"
    by (cases s) (auto simp: parens_def split: if_splits list.splits)
  have "cs = takeWhile (\<lambda>x. x \<noteq> 41) cs @ dropWhile (\<lambda>x. x \<noteq> 41) cs"
    by simp
  with s d have "s = (40 # takeWhile (\<lambda>x. x \<noteq> 41) cs @ [x]) @ r"
    by simp
  then show ?thesis ..
qed

lemma optVirtual_suffix: "\<exists>p. s = p @ optVirtual s"
proof (cases "lit ''virtual'' s")
  case None
  then show ?thesis by (simp add: optVirtual_def)
next
  case (Some r)
  from lit_Some[OF Some] spaces0_suffix[of r] obtain p where "s = (str ''virtual'' @ p) @ spaces0 r"
    by auto
  with Some show ?thesis
    unfolding optVirtual_def by (simp only: option.case) blast
qed

lemma optOverride_suffix: "\<exists>p. s = p @ optOverride s"
proof (cases "lit ''override'' s")
  case None
  then show ?thesis by (simp add: optOverride_def)
next
  case (Some r)
  note s = lit_Some[OF Some]
  from spaces0_suffix[of r] obtain p1 where p1: "r = p1 @ spaces0 r" ..
  show ?thesis
  proof (cases "parens (spaces0 r)")
    case None
    from spaces0_suffix[of "spaces0 r"] obtain p2 where "spaces0 r = p2 @ spaces0 (spaces0 r)" ..
    with s p1 have "s = (str ''override'' @ p1 @ p2) @ spaces0 (spaces0 r)"
      by (metis append.assoc)
    moreover have "optOverride s = spaces0 (spaces0 r)"
      using Some None by (simp add: optOverride_def Let_def)
    ultimately show ?thesis by metis
  next
    case (Some r'')
    from parens_Some[OF Some] obtain p2 where p2: "spaces0 r = p2 @ r''" ..
    from spaces0_suffix[of r''] obtain p3 where p3: "r'' = p3 @ spaces0 r''" ..
    from s p1 p2 p3 have "s = (str ''override'' @ p1 @ p2 @ p3) @ spaces0 r''"
      by (metis append.assoc)
    moreover have "optOverride s = spaces0 r''"
      using \<open>lit ''override'' s = Some r\<close> Some by (simp add: optOverride_def Let_def)
    ultimately show ?thesis by metis
  qed
qed

lemma brace_is_last:
  assumes "s = p @ 123 # r"
  shows "0 < length s - length r \<and> length s - length r \<le> length s
         \<and> s ! (length s - length r - 1) = 123"
  using assms by simp

lemma signatureTail_Some:
  assumes "signatureTail s = Some (modifiers, r')"
  shows "\<exists>p. s = p @ 123 # r'"
proof -
  from assms obtain r where r: "parens (spaces0 s) = Some r"
    and b: "lit ''{'' (dropWhile notBraceSemi (spaces0 r)) = Some r'"
    by (auto simp: signatureTail_def Let_def split: Option.bind_splits)
  from spaces0_suffix[of s] obtain p1 where p1: "s = p1 @ spaces0 s" ..
  from parens_Some[OF r] obtain p2 where p2: "spaces0 s = p2 @ r" ..
  from spaces0_suffix[of r] obtain p3 where p3: "r = p3 @ spaces0 r" ..
  have p4: "spaces0 r = takeWhile notBraceSemi (spaces0 r) @ dropWhile notBraceSemi (spaces0 r)"
    by simp
  from lit_Some[OF b] have p5: "dropWhile notBraceSemi (spaces0 r) = 123 # r'"
    by simp
  from p1 p2 p3 p4 p5 have "s = (p1 @ p2 @ p3 @ takeWhile notBraceSemi (spaces0 r)) @ 123 # r'"
    by (metis append.assoc)
  then show ?thesis ..
qed

lemma functionRe_brace:
  assumes "functionRe prev s = Some (n, nm, modifiers)"
  shows "0 < n \<and> n \<le> length s \<and> s ! (n - 1) = 123"
proof -
  from assms obtain r r1 r2 r3 where r: "lit ''function'' s = Some r"
    and r1: "spaces1 r = Some r1" and r2: "ident r1 = Some (nm, r2)"
    and r3: "signatureTail r2 = Some (modifiers, r3)" and n: "n = length s - length r3"
    by (auto simp: functionRe_def split: if_splits Option.bind_splits)
  from spaces1_Some[OF r1] obtain p1 where p1: "r = p1 @ r1" ..
  from signatureTail_Some[OF r3] obtain p2 where p2: "r2 = p2 @ 123 # r3" ..
  from lit_Some[OF r] p1 ident_Some[OF r2] p2
  have "s = (str ''function'' @ p1 @ nm @ p2) @ 123 # r3"
    by simp
  from brace_is_last[OF this] n show ?thesis by simp
qed

lemma constructorRe_brace:
  assumes "constructorRe prev s = Some (n, modifiers)"
  shows "0 < n \<and> n \<le> length s \<and> s ! (n - 1) = 123"
proof -
  from assms obtain r r' where r: "lit ''constructor'' s = Some r"
    and r': "signatureTail r = Some (modifiers, r')" and n: "n = length s - length r'"
    by (auto simp: constructorRe_def split: if_splits Option.bind_splits)
  from signatureTail_Some[OF r'] obtain p where p: "r = p @ 123 # r'" ..
  from lit_Some[OF r] p have "s = (str ''constructor'' @ p) @ 123 # r'"
    by simp
  from brace_is_last[OF this] n show ?thesis by simp
qed

lemma modifierRe_brace:
  assumes "modifierRe prev s = Some (n, nm)"
  shows "0 < n \<and> n \<le> length s \<and> s ! (n - 1) = 123"
proof -
  from assms obtain r r1 r2 r3 r4 where r: "lit ''modifier'' s = Some r"
    and r1: "spaces1 r = Some r1" and r2: "ident r1 = Some (nm, r2)"
    and r3: "parens (spaces0 r2) = Some r3"
    and r4: "lit ''{'' (optOverride (optVirtual (spaces0 r3))) = Some r4"
    and n: "n = length s - length r4"
    by (auto simp: modifierRe_def split: if_splits Option.bind_splits)
  from spaces1_Some[OF r1] obtain p1 where p1: "r = p1 @ r1" ..
  from spaces0_suffix[of r2] obtain p2 where p2: "r2 = p2 @ spaces0 r2" ..
  from parens_Some[OF r3] obtain p3 where p3: "spaces0 r2 = p3 @ r3" ..
  from spaces0_suffix[of r3] obtain p4 where p4: "r3 = p4 @ spaces0 r3" ..
  from optVirtual_suffix[of "spaces0 r3"] obtain p5 where
    p5: "spaces0 r3 = p5 @ optVirtual (spaces0 r3)" ..
  from optOverride_suffix[of "optVirtual (spaces0 r3)"] obtain p6 where
    p6: "optVirtual (spaces0 r3) = p6 @ optOverride (optVirtual (spaces0 r3))" ..
  from lit_Some[OF r4] have p7: "optOverride (optVirtual (spaces0 r3)) = 123 # r4"
    by simp
  have "s = str ''modifier'' @ r" by (rule lit_Some[OF r])
  also have "\<dots> = str ''modifier'' @ p1 @ nm @ r2"
    using p1 ident_Some[OF r2] by simp
  also have "r2 = p2 @ p3 @ r3" using p2 p3 by simp
  also have "r3 = p4 @ p5 @ p6 @ 123 # r4" using p4 p5 p6 p7 by simp
  finally have "s = (str ''modifier'' @ p1 @ nm @ p2 @ p3 @ p4 @ p5 @ p6) @ 123 # r4"
    by simp
  from brace_is_last[OF this] n show ?thesis by simp
qed

section \<open>The first opening brace\<close>

text \<open>\<^verbatim>\<open>content.indexOf('{', start)\<close> finds the first opening brace at or after \<open>start\<close>
  whenever there is one, so it is never behind the opening brace of the declaration.\<close>

lemma indexFrom_first:
  "ch \<in> set s \<Longrightarrow>
     \<exists>k<length s. indexFrom ch i s = int (i + k) \<and> s ! k = ch \<and> ch \<notin> set (take k s)"
proof (induction ch i s rule: indexFrom.induct)
  case (1 ch i)
  then show ?case by simp
next
  case (2 ch i c cs)
  show ?case
  proof (cases "c = ch")
    case True
    then show ?thesis by (auto intro: exI[of _ 0])
  next
    case False
    with 2 obtain k where "k < length cs" "indexFrom ch (i + 1) cs = int (i + 1 + k)"
      "cs ! k = ch" "ch \<notin> set (take k cs)"
      by auto
    with False show ?thesis
      by (auto intro!: exI[of _ "Suc k"])
  qed
qed

lemma indexOf_firstBrace:
  assumes "start \<le> brace" "brace < length content" "content ! brace = 123"
  shows "0 \<le> indexOf content 123 start
         \<and> firstBrace content start (nat (indexOf content 123 start))
         \<and> nat (indexOf content 123 start) \<le> brace"
proof -
  from assms have "brace - start < length (drop start content)"
    "drop start content ! (brace - start) = 123"
    by simp_all
  then have mem: "123 \<in> set (drop start content)"
    by (metis nth_mem)
  from indexFrom_first[OF mem, of start]
  obtain k where k: "k < length (drop start content)"
    "indexOf content 123 start = int (start + k)" "drop start content ! k = 123"
    "123 \<notin> set (take k (drop start content))"
    by (auto simp: indexOf_def)
  from k(2) have n: "nat (indexOf content 123 start) = start + k" by simp
  have "k \<le> brace - start"
  proof (rule ccontr)
    assume "\<not> k \<le> brace - start"
    then have "brace - start < k" by simp
    with k(1) have l: "brace - start < length (take k (drop start content))"
      by simp
    from \<open>brace - start < k\<close> assms
    have "take k (drop start content) ! (brace - start) = 123"
      by simp
    with nth_mem[OF l] k(4) show False by simp
  qed
  with k(1) assms(1) have "start + k < length content" "start + k \<le> brace"
    by simp_all
  with k assms show ?thesis
    unfolding n firstBrace_def by (simp add: add.commute)
qed

section \<open>The scopes of the declarations\<close>

text \<open>The regions that the scan records are, one by one and in order, the scopes of the
  modifier, function and constructor declarations.\<close>

lemma match_brace:
  assumes m: "(i, g) \<in> set (matchAll m content)"
    and brace: "\<And>prev s n g. m prev s = Some (n, g) \<Longrightarrow> 0 < n \<and> n \<le> length s \<and> s ! (n - 1) = 123"
  shows "i \<le> i + matchLength m content i - 1
         \<and> i + matchLength m content i - 1 < length content
         \<and> content ! (i + matchLength m content i - 1) = 123"
proof -
  define n where "n = matchLength m content i"
  from matchAll_sound[OF m] have i: "i < length content"
    and "m (before content i) (drop i content) = Some (n, g)"
    by (simp_all add: n_def)
  from brace[OF this(2)] have n: "0 < n" "n \<le> length content - i"
    and b: "drop i content ! (n - 1) = 123"
    by simp_all
  from n i have l: "i + (n - 1) < length content" by arith
  from b l have "content ! (i + (n - 1)) = 123"
    by simp
  moreover from n have "i + n - 1 = i + (n - 1)" by arith
  ultimately show ?thesis
    using l unfolding n_def[symmetric] by simp
qed

lemma functionRe_brace':
  assumes "functionRe prev s = Some (n, g)"
  shows "0 < n \<and> n \<le> length s \<and> s ! (n - 1) = 123"
proof -
  from assms have "functionRe prev s = Some (n, fst g, snd g)" by simp
  then show ?thesis by (rule functionRe_brace)
qed

lemma mkRegion_scopeOf:
  assumes "start \<le> brace" "brace < length content" "content ! brace = 123"
  shows "scopeOf filePath content (start, brace, nm) (mkRegion filePath content nm start)"
  using indexOf_firstBrace[OF assms] assms
  by (simp add: scopeOf_def mkRegion_def Let_def)

lemma list_all2_map_same:
  "(\<And>x. x \<in> set xs \<Longrightarrow> P (f x) (g x)) \<Longrightarrow> list_all2 P (map f xs) (map g xs)"
  by (induction xs) auto

lemma regions_scopeOf:
  "list_all2 (\<lambda>r d. scopeOf filePath (stripComments source) d r)
     (blockRegions (scanSolidity filePath source)) (methodDeclarations (stripComments source))"
proof -
  define content where "content = stripComments source"
  have 1: "list_all2 (\<lambda>r d. scopeOf filePath content d r)
      (map (\<lambda>m. mkRegion filePath content (snd m) (fst m)) (matchAll modifierRe content))
      (map (\<lambda>m. (fst m, fst m + matchLength modifierRe content (fst m) - 1, snd m))
         (matchAll modifierRe content))"
  proof (rule list_all2_map_same)
    fix x assume "x \<in> set (matchAll modifierRe content)"
    then have "(fst x, snd x) \<in> set (matchAll modifierRe content)" by simp
    from match_brace[OF this] modifierRe_brace
    show "scopeOf filePath content (fst x, fst x + matchLength modifierRe content (fst x) - 1, snd x)
        (mkRegion filePath content (snd x) (fst x))"
      by (intro mkRegion_scopeOf) blast+
  qed
  have 2: "list_all2 (\<lambda>r d. scopeOf filePath content d r)
      (map (\<lambda>m. mkRegion filePath content (fst (snd m)) (fst m)) (matchAll functionRe content))
      (map (\<lambda>m. (fst m, fst m + matchLength functionRe content (fst m) - 1, fst (snd m)))
         (matchAll functionRe content))"
  proof (rule list_all2_map_same)
    fix x assume "x \<in> set (matchAll functionRe content)"
    then have x: "(fst x, snd x) \<in> set (matchAll functionRe content)" by simp
    from match_brace[OF x] functionRe_brace'
    show "scopeOf filePath content (fst x, fst x + matchLength functionRe content (fst x) - 1, fst (snd x))
        (mkRegion filePath content (fst (snd x)) (fst x))"
      by (intro mkRegion_scopeOf) blast+
  qed
  have 3: "list_all2 (\<lambda>r d. scopeOf filePath content d r)
      (map (\<lambda>m. mkRegion filePath content (str ''constructor'') (fst m)) (matchAll constructorRe content))
      (map (\<lambda>m. (fst m, fst m + matchLength constructorRe content (fst m) - 1, str ''constructor''))
         (matchAll constructorRe content))"
  proof (rule list_all2_map_same)
    fix x assume "x \<in> set (matchAll constructorRe content)"
    then have "(fst x, snd x) \<in> set (matchAll constructorRe content)" by simp
    from match_brace[OF this] constructorRe_brace
    show "scopeOf filePath content
        (fst x, fst x + matchLength constructorRe content (fst x) - 1, str ''constructor'')
        (mkRegion filePath content (str ''constructor'') (fst x))"
      by (intro mkRegion_scopeOf) blast+
  qed
  from 1 2 3 show ?thesis
    unfolding scanSolidity_blockRegions methodDeclarations_def Let_def content_def[symmetric]
    by (intro list_all2_appendI)
qed

lemma regions_start:
  assumes "r \<in> set (blockRegions (scanSolidity filePath source))"
  shows "0 \<le> regionStart r \<and> nat (regionStart r) < length source
         \<and> stripComments source ! nat (regionStart r) = 123
         \<and> regionEnd r = findBlockEnd (stripComments source) (nat (regionStart r))
         \<and> regionSourceId r = generateId (str ''Method'') (filePath @ str '':'' @ regionName r)"
proof -
  from assms obtain i where i: "i < length (blockRegions (scanSolidity filePath source))"
    "blockRegions (scanSolidity filePath source) ! i = r"
    by (auto simp: in_set_conv_nth)
  define d where "d = methodDeclarations (stripComments source) ! i"
  from regions_scopeOf[of filePath source] i
  have "scopeOf filePath (stripComments source) d r"
    unfolding d_def by (auto simp: list_all2_conv_all_nth)
  then show ?thesis
    by (cases d) (auto simp: scopeOf_def firstBrace_def length_stripComments)
qed

section \<open>The definitions of the declarations\<close>

text \<open>The keys of \<^verbatim>\<open>seenDefs\<close> stand for definitions all through the scan, whether
  \<open>addDef\<close> adds a definition or finds its key seen.\<close>

lemma addDef_defsInv:
  assumes "defsInv filePath content st"
    and "lbl = str ''Method'' \<Longrightarrow> endIdx = regionEnd (mkRegion filePath content nm startIdx)"
  shows "defsInv filePath content (addDef content lbl nm startIdx e endIdx st)"
proof (cases "(lbl, nm, startIdx) \<in> seenDefs st")
  case True
  with assms(1) show ?thesis by (simp add: addDef_def)
next
  case False
  let ?x = "\<lparr>label = lbl, name = nm, startLine = lineOf content (int startIdx),
              endLine = lineOf content endIdx, isExported = e\<rparr>"
  have st': "seenDefs (addDef content lbl nm startIdx e endIdx st) = insert (lbl, nm, startIdx) (seenDefs st)"
    "set (definitions (addDef content lbl nm startIdx e endIdx st)) = insert ?x (set (definitions st))"
    using False by (simp_all add: addDef_def)
  show ?thesis
    unfolding defsInv_def st'
  proof (intro ballI)
    fix k assume "k \<in> insert (lbl, nm, startIdx) (seenDefs st)"
    then consider "k = (lbl, nm, startIdx)" | "k \<in> seenDefs st" by blast
    then show "\<exists>x \<in> insert ?x (set (definitions st)).
        label x = fst k \<and> name x = fst (snd k)
        \<and> startLine x = lineOf content (int (snd (snd k)))
        \<and> (fst k = str ''Method'' \<longrightarrow>
             endLine x = lineOf content
               (regionEnd (mkRegion filePath content (fst (snd k)) (snd (snd k)))))"
    proof cases
      case 1
      with assms(2) show ?thesis by auto
    next
      case 2
      with assms(1) show ?thesis
        unfolding defsInv_def by blast
    qed
  qed
qed

lemma defsInv_update:
  "definitions st' = definitions st \<Longrightarrow> seenDefs st' = seenDefs st \<Longrightarrow>
     defsInv filePath content st \<Longrightarrow> defsInv filePath content st'"
  by (simp add: defsInv_def)

lemma importStep_defsInv:
  "defsInv filePath content st \<Longrightarrow> defsInv filePath content (importStep m st)"
  by (rule defsInv_update) (simp_all add: importStep_def)

lemma contractLikeStep_defsInv:
  assumes "defsInv filePath content st"
  shows "defsInv filePath content (contractLikeStep content m st)"
proof -
  have h: "\<And>s h. defsInv filePath content s \<Longrightarrow> defsInv filePath content (s\<lparr>heritage := h\<rparr>)"
    by (simp add: defsInv_def)
  show ?thesis
    by (cases m) (auto simp: contractLikeStep_def Let_def intro!: h addDef_defsInv assms)
qed

lemma plainDefStep_defsInv:
  assumes "defsInv filePath content st" "str lbl \<noteq> str ''Method''"
  shows "defsInv filePath content (plainDefStep content lbl m st)"
  unfolding plainDefStep_def using assms by (intro addDef_defsInv) simp_all

lemma methodStep_defsInv:
  assumes "defsInv filePath content st"
  shows "defsInv filePath content (methodStep filePath content nm start e st)"
proof -
  define openBrace where "openBrace = indexOf content 123 start"
  define closeBrace where
    "closeBrace = (if openBrace \<ge> 0 then findBlockEnd content (nat openBrace) else int start)"
  define st' where "st' = addDef content (str ''Method'') nm start e closeBrace st"
  define r where "r = \<lparr>regionName = nm,
      regionSourceId = generateId (str ''Method'') (filePath @ str '':'' @ nm),
      regionStart = openBrace, regionEnd = closeBrace\<rparr>"
  have eq: "methodStep filePath content nm start e st = st'\<lparr>blockRegions := blockRegions st' @ [r]\<rparr>"
    by (simp add: methodStep_def Let_def openBrace_def closeBrace_def st'_def r_def)
  have c: "closeBrace = regionEnd (mkRegion filePath content nm start)"
    by (simp add: mkRegion_def Let_def openBrace_def closeBrace_def)
  have "defsInv filePath content st'"
    unfolding st'_def by (rule addDef_defsInv[OF assms]) (rule c)
  then show ?thesis
    unfolding eq by (simp add: defsInv_def)
qed

lemma modifierStep_defsInv:
  "defsInv filePath content st \<Longrightarrow> defsInv filePath content (modifierStep filePath content m st)"
  by (simp add: modifierStep_def methodStep_defsInv)

lemma functionStep_defsInv:
  "defsInv filePath content st \<Longrightarrow> defsInv filePath content (functionStep filePath content m st)"
  by (cases m) (simp add: functionStep_def methodStep_defsInv)

lemma constructorStep_defsInv:
  "defsInv filePath content st \<Longrightarrow> defsInv filePath content (constructorStep filePath content m st)"
  by (simp add: constructorStep_def methodStep_defsInv)

lemma scanSolidity_defsInv:
  "defsInv filePath (stripComments source) (scanSolidity filePath source)"
proof -
  have upd: "\<And>st c. defsInv filePath (stripComments source) st
      \<Longrightarrow> defsInv filePath (stripComments source) (st\<lparr>calls := c\<rparr>)"
    by (simp add: defsInv_def)
  have init: "defsInv filePath (stripComments source)
      \<lparr>definitions = [], imports' = [], calls = [], heritage = [], seenDefs = {}, blockRegions = []\<rparr>"
    by (simp add: defsInv_def)
  have l: "str ''Struct'' \<noteq> str ''Method''" "str ''Enum'' \<noteq> str ''Method''"
    "str ''CodeElement'' \<noteq> str ''Method''"
    by simp_all
  show ?thesis
    unfolding scanSolidity_def Let_def
    by (intro upd fold_preserves[where P = "defsInv filePath (stripComments source)"]
        init importStep_defsInv contractLikeStep_defsInv plainDefStep_defsInv l
        modifierStep_defsInv functionStep_defsInv constructorStep_defsInv)
qed

text \<open>The keys of the declarations are seen when the scan ends.\<close>

lemma addDef_seen: "(lbl, nm, i) \<in> seenDefs (addDef content lbl nm i e j st)"
  by (simp add: addDef_def)

lemma addDef_seen_mono: "seenDefs st \<subseteq> seenDefs (addDef content lbl nm i e j st)"
  by (auto simp: addDef_def)

lemma methodStep_seen:
  "(str ''Method'', nm, start) \<in> seenDefs (methodStep filePath content nm start e st)"
  by (simp add: methodStep_def Let_def addDef_seen)

lemma methodStep_seen_mono:
  "seenDefs st \<subseteq> seenDefs (methodStep filePath content nm start e st)"
  using addDef_seen_mono by (simp add: methodStep_def Let_def)

lemma fold_seen_mono:
  assumes "\<And>x s. seenDefs s \<subseteq> seenDefs (f x s)"
  shows "seenDefs st \<subseteq> seenDefs (fold f xs st)"
proof (induction xs arbitrary: st)
  case Nil
  then show ?case by simp
next
  case (Cons x xs)
  from assms[of st x] Cons[of "f x st"] show ?case by auto
qed

lemma fold_seen:
  assumes "\<And>x s. K x \<in> seenDefs (f x s)" and "\<And>x s. seenDefs s \<subseteq> seenDefs (f x s)"
    and "x \<in> set xs"
  shows "K x \<in> seenDefs (fold f xs st)"
  using assms(3)
proof (induction xs arbitrary: st)
  case Nil
  then show ?case by simp
next
  case (Cons y xs)
  show ?case
  proof (cases "x = y")
    case True
    from assms(1)[of y st] fold_seen_mono[of f "f y st" xs, OF assms(2)] True
    show ?thesis by auto
  next
    case False
    with Cons show ?thesis by simp
  qed
qed

lemma declarations_seen:
  assumes "d \<in> set (methodDeclarations (stripComments source))"
  shows "(str ''Method'', snd (snd d), fst d) \<in> seenDefs (scanSolidity filePath source)"
proof -
  define content where "content = stripComments source"
  define st5 where "st5 =
    fold (plainDefStep content ''CodeElement'') (matchAll (keywordNameRe ''event'') content)
      (fold (plainDefStep content ''Enum'') (matchAll (keywordNameRe ''enum'') content)
        (fold (plainDefStep content ''Struct'') (matchAll (keywordNameRe ''struct'') content)
          (fold (contractLikeStep content) (matchAll contractLikeRe content)
            (fold importStep (matchAll importRe content)
              \<lparr>definitions = [], imports' = [], calls = [], heritage = [],
               seenDefs = {}, blockRegions = []\<rparr>))))"
  define st6 where "st6 = fold (modifierStep filePath content) (matchAll modifierRe content) st5"
  define st7 where "st7 = fold (functionStep filePath content) (matchAll functionRe content) st6"
  define st8 where "st8 = fold (constructorStep filePath content) (matchAll constructorRe content) st7"
  have final: "seenDefs (scanSolidity filePath source) = seenDefs st8"
    by (simp add: scanSolidity_def Let_def st8_def st7_def st6_def st5_def content_def)
  have m6: "\<And>x s. seenDefs s \<subseteq> seenDefs (modifierStep filePath content x s)"
    by (simp add: modifierStep_def methodStep_seen_mono)
  have m7: "\<And>x s. seenDefs s \<subseteq> seenDefs (functionStep filePath content x s)"
    by (simp add: functionStep_def methodStep_seen_mono split: prod.splits)
  have m8: "\<And>x s. seenDefs s \<subseteq> seenDefs (constructorStep filePath content x s)"
    by (simp add: constructorStep_def methodStep_seen_mono)
  have k7: "\<And>x s. (str ''Method'', fst (snd x), fst x) \<in> seenDefs (functionStep filePath content x s)"
  proof -
    fix x :: "nat \<times> jsstring \<times> jsstring" and s
    obtain a b c where x: "x = (a, b, c)" by (cases x)
    show "(str ''Method'', fst (snd x), fst x) \<in> seenDefs (functionStep filePath content x s)"
      by (simp only: x functionStep_def prod.case fst_conv snd_conv methodStep_seen)
  qed
  have s67: "seenDefs st6 \<subseteq> seenDefs st7"
    unfolding st7_def by (rule fold_seen_mono) (rule m7)
  have s78: "seenDefs st7 \<subseteq> seenDefs st8"
    unfolding st8_def by (rule fold_seen_mono) (rule m8)
  from assms consider
      (mod) m where "m \<in> set (matchAll modifierRe content)" "snd (snd d) = snd m" "fst d = fst m"
    | (fn) m where "m \<in> set (matchAll functionRe content)" "snd (snd d) = fst (snd m)" "fst d = fst m"
    | (ctor) m where "m \<in> set (matchAll constructorRe content)"
        "snd (snd d) = str ''constructor''" "fst d = fst m"
    unfolding methodDeclarations_def content_def[symmetric] by auto
  then have "(str ''Method'', snd (snd d), fst d) \<in> seenDefs st8"
  proof cases
    case mod
    have "(str ''Method'', snd m, fst m) \<in> seenDefs st6"
      unfolding st6_def
      by (rule fold_seen[where K = "\<lambda>m. (str ''Method'', snd m, fst m)", OF _ m6 mod(1)])
        (simp only: modifierStep_def methodStep_seen)
    with s67 s78 mod show ?thesis by auto
  next
    case fn
    have "(str ''Method'', fst (snd m), fst m) \<in> seenDefs st7"
      unfolding st7_def
      by (rule fold_seen[where K = "\<lambda>m. (str ''Method'', fst (snd m), fst m)", OF _ m7 fn(1)])
        (rule k7)
    with s78 fn show ?thesis by auto
  next
    case ctor
    have "(str ''Method'', str ''constructor'', fst m) \<in> seenDefs st8"
      unfolding st8_def
      by (rule fold_seen[where K = "\<lambda>m. (str ''Method'', str ''constructor'', fst m)",
            OF _ m8 ctor(1)])
        (simp only: constructorStep_def methodStep_seen)
    with ctor show ?thesis by auto
  qed
  with final show ?thesis by simp
qed

lemma mkRegion_regionEnd:
  "regionEnd (mkRegion filePath content nm start) = regionEnd (mkRegion filePath' content nm' start)"
  by (simp add: mkRegion_def Let_def)

lemma region_of_declaration:
  "list_all2 (\<lambda>r d. regionEnd r = regionEnd (mkRegion filePath (stripComments source) (snd (snd d)) (fst d)))
     (blockRegions (scanSolidity filePath source)) (methodDeclarations (stripComments source))"
  unfolding scanSolidity_blockRegions methodDeclarations_def Let_def
  by (intro list_all2_appendI list_all2_map_same) (simp_all add: mkRegion_def Let_def)

lemma regions_declared:
  "list_all2
     (\<lambda>r d. declared (definitions (extractSolidityArtifacts filePath source)) (stripComments source) d r)
     (blockRegions (scanSolidity filePath source)) (methodDeclarations (stripComments source))"
proof (rule list.rel_mono_strong[OF region_of_declaration[of filePath source]])
  fix r :: BlockRegion and d
  assume "r \<in> set (blockRegions (scanSolidity filePath source))"
    and d: "d \<in> set (methodDeclarations (stripComments source))"
    and e: "regionEnd r = regionEnd (mkRegion filePath (stripComments source) (snd (snd d)) (fst d))"
  from declarations_seen[OF d, of filePath] scanSolidity_defsInv[of filePath source]
  obtain x where "x \<in> set (definitions (scanSolidity filePath source))"
    "label x = str ''Method''" "name x = snd (snd d)"
    "startLine x = lineOf (stripComments source) (int (fst d))"
    "endLine x = lineOf (stripComments source)
        (regionEnd (mkRegion filePath (stripComments source) (snd (snd d)) (fst d)))"
    unfolding defsInv_def by fastforce
  with e show "declared (definitions (extractSolidityArtifacts filePath source)) (stripComments source) d r"
    by (cases d) (auto simp: declared_def extractSolidityArtifacts_fields)
qed

section \<open>The calls of the scopes\<close>

text \<open>The body that is sliced out of the text for a region is the text of the region, and
  the call records are those of the call sites of all regions that are longer than one
  code unit.\<close>

lemma slice_scopeText:
  assumes "0 \<le> regionStart r" "regionStart r < regionEnd r"
  shows "slice content (regionStart r) (regionEnd r + 1) = scopeText content r"
proof -
  define a where "a = nat (regionStart r)"
  define b where "b = nat (regionEnd r)"
  from assms have ab: "regionStart r = int a" "regionEnd r = int b" "a < b"
    by (simp_all add: a_def b_def)
  have s: "slice content (int a) (int b + 1)
      = take (min (Suc b) (length content) - min a (length content)) (drop (min a (length content)) content)"
    by (simp add: slice_def sliceIndex_def Let_def nat_add_distrib)
  show ?thesis
  proof (cases "a < length content")
    case False
    then show ?thesis
      unfolding ab s scopeText_def by simp
  next
    case True
    then have "take (min (Suc b) (length content) - a) (drop a content)
        = take (Suc b - a) (drop a content)"
      by (cases "Suc b \<le> length content") (simp_all add: min_def)
    with True show ?thesis
      unfolding ab s scopeText_def by (simp add: min_def)
  qed
qed

lemma concat_map_if:
  "(\<And>x. x \<in> set xs \<Longrightarrow> f x = (if P x then g x else [])) \<Longrightarrow>
     concat (map f xs) = concat (map g (filter P xs))"
  by (induction xs) auto

lemma artifacts_calls_exact:
  "calls (extractSolidityArtifacts filePath source) =
     concat (map (\<lambda>r. map (\<lambda>m. \<lparr>calledName = snd m, sourceId = regionSourceId r\<rparr>)
                   (filter (\<lambda>m. snd m \<notin> set CALL_KEYWORDS \<and> snd m \<noteq> regionName r)
                      (matchAll callRe (scopeText (stripComments source) r))))
       (filter (\<lambda>r. regionStart r < regionEnd r) (blockRegions (scanSolidity filePath source))))"
  unfolding extractSolidityArtifacts_fields scanSolidity_calls
proof (rule concat_map_if)
  fix r assume "r \<in> set (blockRegions (scanSolidity filePath source))"
  from regions_start[OF this] have s: "0 \<le> regionStart r" by simp
  show "regionCalls (stripComments source) r =
     (if regionStart r < regionEnd r
      then map (\<lambda>m. \<lparr>calledName = snd m, sourceId = regionSourceId r\<rparr>)
             (filter (\<lambda>m. snd m \<notin> set CALL_KEYWORDS \<and> snd m \<noteq> regionName r)
                (matchAll callRe (scopeText (stripComments source) r)))
      else [])"
    using s slice_scopeText[OF s, of "stripComments source"]
    by (auto simp: regionCalls_def Let_def)
qed

section \<open>Nested scopes and a brace in a parameter list\<close>

lemma strip_nestedExample: "stripComments nestedExample = nestedExample"
  by (rule no_comment_unchanged)
    (simp_all add: nestedExample_def matchBlockComment_def matchLineComment_def)

lemma modifiers_nestedExample: "matchAll modifierRe nestedExample = []"
  by (simp add: nestedExample_def re_defs modifierRe_def)

lemma functions_nestedExample:
  "matchAll functionRe nestedExample = [(0, str ''f'', []), (13, str ''g'', [])]"
  by (simp add: nestedExample_def re_defs functionRe_def signatureTail_def)

lemma constructors_nestedExample: "matchAll constructorRe nestedExample = []"
  by (simp add: nestedExample_def re_defs constructorRe_def signatureTail_def)

lemma region_f_nestedExample:
  "mkRegion aSol nestedExample (str ''f'') 0 =
     \<lparr>regionName = str ''f'',
      regionSourceId = generateId (str ''Method'') (aSol @ str '':f''),
      regionStart = 12, regionEnd = 31\<rparr>"
  by (simp add: nestedExample_def mkRegion_def indexOf_def findBlockEnd_def)

lemma region_g_nestedExample:
  "mkRegion aSol nestedExample (str ''g'') 13 =
     \<lparr>regionName = str ''g'',
      regionSourceId = generateId (str ''Method'') (aSol @ str '':g''),
      regionStart = 25, regionEnd = 30\<rparr>"
  by (simp add: nestedExample_def mkRegion_def indexOf_def findBlockEnd_def)

lemma regions_nestedExample:
  "blockRegions (scanSolidity aSol nestedExample) =
     [\<lparr>regionName = str ''f'',
       regionSourceId = generateId (str ''Method'') (aSol @ str '':f''),
       regionStart = 12, regionEnd = 31\<rparr>,
      \<lparr>regionName = str ''g'',
       regionSourceId = generateId (str ''Method'') (aSol @ str '':g''),
       regionStart = 25, regionEnd = 30\<rparr>]"
  by (simp add: scanSolidity_blockRegions strip_nestedExample modifiers_nestedExample
      functions_nestedExample constructors_nestedExample region_f_nestedExample[simplified]
      region_g_nestedExample[simplified])

lemma body_f_nestedExample:
  "matchAll callRe (slice nestedExample 12 32) = [(10, str ''g''), (14, str ''h'')]"
  by (simp add: nestedExample_def slice_def sliceIndex_def re_defs callRe_def)

lemma body_g_nestedExample:
  "matchAll callRe (slice nestedExample 25 31) = [(1, str ''h'')]"
  by (simp add: nestedExample_def slice_def sliceIndex_def re_defs callRe_def)

lemma calls_nestedExample:
  "calls (extractSolidityArtifacts aSol nestedExample) =
     [\<lparr>calledName = str ''g'', sourceId = generateId (str ''Method'') (aSol @ str '':f'')\<rparr>,
      \<lparr>calledName = str ''h'', sourceId = generateId (str ''Method'') (aSol @ str '':f'')\<rparr>,
      \<lparr>calledName = str ''h'', sourceId = generateId (str ''Method'') (aSol @ str '':g'')\<rparr>]"
  by (simp add: extractSolidityArtifacts_fields scanSolidity_calls regions_nestedExample
      strip_nestedExample regionCalls_def body_f_nestedExample body_g_nestedExample
      CALL_KEYWORDS_def)

lemma strip_parameterBraceExample: "stripComments parameterBraceExample = parameterBraceExample"
  by (rule no_comment_unchanged)
    (simp_all add: parameterBraceExample_def matchBlockComment_def matchLineComment_def)

lemma modifiers_parameterBraceExample: "matchAll modifierRe parameterBraceExample = []"
  by (simp add: parameterBraceExample_def re_defs modifierRe_def)

lemma function_parameterBraceExample:
  "functionRe None parameterBraceExample = Some (17, str ''f'', [])"
  by (simp add: parameterBraceExample_def re_defs functionRe_def signatureTail_def)

lemma functions_parameterBraceExample:
  "matchAll functionRe parameterBraceExample = [(0, str ''f'', [])]"
  by (simp add: parameterBraceExample_def re_defs functionRe_def signatureTail_def)

lemma constructors_parameterBraceExample: "matchAll constructorRe parameterBraceExample = []"
  by (simp add: parameterBraceExample_def re_defs constructorRe_def signatureTail_def)

lemma region_parameterBraceExample:
  "mkRegion aSol parameterBraceExample (str ''f'') 0 =
     \<lparr>regionName = str ''f'',
      regionSourceId = generateId (str ''Method'') (aSol @ str '':f''),
      regionStart = 12, regionEnd = 14\<rparr>"
  by (simp add: parameterBraceExample_def mkRegion_def indexOf_def findBlockEnd_def)

lemma regions_parameterBraceExample:
  "blockRegions (scanSolidity aSol parameterBraceExample) =
     [\<lparr>regionName = str ''f'',
       regionSourceId = generateId (str ''Method'') (aSol @ str '':f''),
       regionStart = 12, regionEnd = 14\<rparr>]"
  by (simp add: scanSolidity_blockRegions strip_parameterBraceExample
      modifiers_parameterBraceExample functions_parameterBraceExample
      constructors_parameterBraceExample region_parameterBraceExample[simplified])

lemma body_parameterBraceExample:
  "matchAll callRe (slice parameterBraceExample 12 15) = []"
  by (simp add: parameterBraceExample_def slice_def sliceIndex_def re_defs callRe_def)

lemma calls_parameterBraceExample:
  "calls (extractSolidityArtifacts aSol parameterBraceExample) = []"
  by (simp add: extractSolidityArtifacts_fields scanSolidity_calls regions_parameterBraceExample
      strip_parameterBraceExample regionCalls_def body_parameterBraceExample)

lemma brace_parameterBraceExample:
  "parameterBraceExample ! 16 = 123 \<and> length parameterBraceExample = 23
   \<and> 125 \<notin> set (drop 16 parameterBraceExample)
   \<and> findBlockEnd parameterBraceExample 16 = 22"
  by (simp add: parameterBraceExample_def findBlockEnd_def)

lemma declarations_parameterBraceExample:
  "methodDeclarations parameterBraceExample = [(0, 16, str ''f'')]"
  by (simp add: methodDeclarations_def modifiers_parameterBraceExample
      functions_parameterBraceExample constructors_parameterBraceExample matchLength_def
      before_def function_parameterBraceExample)

lemma strip_parameterCallExample: "stripComments parameterCallExample = parameterCallExample"
  by (rule no_comment_unchanged)
    (simp_all add: parameterCallExample_def matchBlockComment_def matchLineComment_def)

lemma modifiers_parameterCallExample: "matchAll modifierRe parameterCallExample = []"
  by (simp add: parameterCallExample_def re_defs modifierRe_def)

lemma function_parameterCallExample:
  "functionRe None parameterCallExample = Some (20, str ''f'', [])"
  by (simp add: parameterCallExample_def re_defs functionRe_def signatureTail_def)

lemma functions_parameterCallExample:
  "matchAll functionRe parameterCallExample = [(0, str ''f'', [])]"
  by (simp add: parameterCallExample_def re_defs functionRe_def signatureTail_def)

lemma constructors_parameterCallExample: "matchAll constructorRe parameterCallExample = []"
  by (simp add: parameterCallExample_def re_defs constructorRe_def signatureTail_def)

lemma region_parameterCallExample:
  "mkRegion aSol parameterCallExample (str ''f'') 0 =
     \<lparr>regionName = str ''f'',
      regionSourceId = generateId (str ''Method'') (aSol @ str '':f''),
      regionStart = 12, regionEnd = 17\<rparr>"
  by (simp add: parameterCallExample_def mkRegion_def indexOf_def findBlockEnd_def)

lemma regions_parameterCallExample:
  "blockRegions (scanSolidity aSol parameterCallExample) =
     [\<lparr>regionName = str ''f'',
       regionSourceId = generateId (str ''Method'') (aSol @ str '':f''),
       regionStart = 12, regionEnd = 17\<rparr>]"
  by (simp add: scanSolidity_blockRegions strip_parameterCallExample
      modifiers_parameterCallExample functions_parameterCallExample
      constructors_parameterCallExample region_parameterCallExample[simplified])

lemma body_parameterCallExample:
  "matchAll callRe (slice parameterCallExample 12 18) = [(1, str ''h'')]"
  by (simp add: parameterCallExample_def slice_def sliceIndex_def re_defs callRe_def)

lemma calls_parameterCallExample:
  "calls (extractSolidityArtifacts aSol parameterCallExample) =
     [\<lparr>calledName = str ''h'', sourceId = generateId (str ''Method'') (aSol @ str '':f'')\<rparr>]"
  by (simp add: extractSolidityArtifacts_fields scanSolidity_calls regions_parameterCallExample
      strip_parameterCallExample regionCalls_def body_parameterCallExample CALL_KEYWORDS_def)

lemma declarations_parameterCallExample:
  "methodDeclarations parameterCallExample = [(0, 19, str ''f'')]"
  by (simp add: methodDeclarations_def modifiers_parameterCallExample
      functions_parameterCallExample constructors_parameterCallExample matchLength_def
      before_def function_parameterCallExample)

section \<open>Call records and brace scopes\<close>

lemma featureCalls_callsExample:
  "calls (extractSolidityFeatures aSol callsExample) =
     [\<lparr>calledName = str ''f'', sourceId = generateId (str ''File'') aSol\<rparr>,
      \<lparr>calledName = str ''f'', sourceId = generateId (str ''File'') aSol\<rparr>,
      \<lparr>calledName = str ''g'', sourceId = generateId (str ''File'') aSol\<rparr>]"
  by (simp add: extractSolidityFeatures_calls featureCalls_def callsExample_def re_defs callRe_def
      KEYWORD_CALL_EXCLUSIONS_def Let_def)

lemma strip_unclosedExample: "stripComments unclosedExample = unclosedExample"
  by (rule no_comment_unchanged)
    (simp_all add: unclosedExample_def matchBlockComment_def matchLineComment_def)

lemma regions_unclosedExample:
  "blockRegions (scanSolidity aSol unclosedExample) =
     [\<lparr>regionName = str ''f'',
       regionSourceId = generateId (str ''Method'') (aSol @ str '':f''),
       regionStart = 13, regionEnd = 16\<rparr>]"
proof -
  have "matchAll modifierRe unclosedExample = []"
    by (simp add: unclosedExample_def re_defs modifierRe_def)
  moreover have "matchAll functionRe unclosedExample = [(0, str ''f'', [])]"
    by (simp add: unclosedExample_def re_defs functionRe_def signatureTail_def)
  moreover have "matchAll constructorRe unclosedExample = []"
    by (simp add: unclosedExample_def re_defs constructorRe_def signatureTail_def)
  moreover have "mkRegion aSol unclosedExample [102] 0 =
     \<lparr>regionName = str ''f'',
      regionSourceId = generateId (str ''Method'') (aSol @ str '':f''),
      regionStart = 13, regionEnd = 16\<rparr>"
    by (simp add: unclosedExample_def mkRegion_def indexOf_def findBlockEnd_def)
  ultimately show ?thesis
    by (simp add: scanSolidity_blockRegions strip_unclosedExample)
qed

lemma unclosedExample_unmatched: "\<not> closesAt unclosedExample 13 j"
proof -
  have "125 \<notin> set unclosedExample"
    by (simp add: unclosedExample_def)
  show ?thesis
  proof
    assume "closesAt unclosedExample 13 j"
    then have "j < length unclosedExample" "unclosedExample ! j = 125"
      by (simp_all add: closesAt_def)
    then have "125 \<in> set unclosedExample"
      using nth_mem[of j unclosedExample] by simp
    with \<open>125 \<notin> set unclosedExample\<close> show False by simp
  qed
qed

lemma list_all2_conjI:
  "list_all2 P xs ys \<Longrightarrow> list_all2 Q xs ys \<Longrightarrow> list_all2 (\<lambda>x y. P x y \<and> Q x y) xs ys"
  by (simp add: list_all2_conv_all_nth)

lemma artifacts_call_not_file:
  assumes "c \<in> set (calls (extractSolidityArtifacts filePath source))"
  shows "sourceId c \<noteq> generateId (str ''File'') filePath"
proof -
  from artifacts_call_region[OF assms]
  obtain r where r: "r \<in> set (blockRegions (scanSolidity filePath source))"
    and c: "c \<in> set (regionCalls (stripComments source) r)"
    by blast
  from regions_start[OF r] regionCalls_member[OF c]
  have "sourceId c = generateId (str ''Method'') (filePath @ str '':'' @ regionName r)"
    by simp
  then show ?thesis
    by (simp add: generateId_def)
qed

lemma scope_callsExample:
  "scopeText callsExample
     \<lparr>regionName = str ''f'', regionSourceId = generateId (str ''Method'') (aSol @ str '':f''),
      regionStart = 13, regionEnd = 29\<rparr> = slice callsExample 13 30"
  by (simp add: scopeText_def slice_def sliceIndex_def callsExample_def)

lemma declarations_callsExample: "methodDeclarations callsExample = [(0, 13, str ''f'')]"
proof -
  have "functionRe None callsExample = Some (14, str ''f'', [])"
    by (simp add: callsExample_def re_defs functionRe_def signatureTail_def)
  then show ?thesis
    by (simp add: methodDeclarations_def modifiers_callsExample functions_callsExample
        constructors_callsExample matchLength_def before_def)
qed

text \<open>
  Claim C1, as the code has it. In \<open>extractSolidityArtifacts\<close> every modifier, function
  and constructor declaration has a scope: the text from the first opening brace at or
  after the start of the declaration to the brace that the depth scan finds from there
  (the end of the text when none matches), and a Method definition with the name of the
  declaration, the line of its start and the line of the end of its scope. Call sites are
  matched inside these scopes only, and the call records are exactly these: one for each
  call site of each scope that is neither a word of \<open>CALL_KEYWORDS\<close> nor the name of the
  declaration, carrying the Method id of that declaration and never the id of the File
  node. So where scopes nest, a call site gives one record for each scope that holds it,
  not only for the innermost one. \<open>extractSolidityFeatures\<close> scans no bodies and gives
  every call site of the file the id of the File node.
\<close>

theorem calls_attributed_to_enclosing_body:
  "calls (extractSolidityArtifacts filePath source) =
     concat (map (\<lambda>r. map (\<lambda>m. \<lparr>calledName = snd m, sourceId = regionSourceId r\<rparr>)
                   (filter (\<lambda>m. snd m \<notin> set CALL_KEYWORDS \<and> snd m \<noteq> regionName r)
                      (matchAll callRe (scopeText (stripComments source) r))))
       (filter (\<lambda>r. regionStart r < regionEnd r) (blockRegions (scanSolidity filePath source))))
   \<and> list_all2
        (\<lambda>r d. scopeOf filePath (stripComments source) d r
               \<and> declared (definitions (extractSolidityArtifacts filePath source))
                    (stripComments source) d r)
        (blockRegions (scanSolidity filePath source)) (methodDeclarations (stripComments source))
   \<and> (\<forall>c \<in> set (calls (extractSolidityArtifacts filePath source)).
        sourceId c \<noteq> generateId (str ''File'') filePath)
   \<and> (\<forall>c \<in> set (calls (extractSolidityFeatures filePath content)).
        sourceId c = generateId (str ''File'') filePath)"
proof (intro conjI ballI)
  show "calls (extractSolidityArtifacts filePath source) =
     concat (map (\<lambda>r. map (\<lambda>m. \<lparr>calledName = snd m, sourceId = regionSourceId r\<rparr>)
                   (filter (\<lambda>m. snd m \<notin> set CALL_KEYWORDS \<and> snd m \<noteq> regionName r)
                      (matchAll callRe (scopeText (stripComments source) r))))
       (filter (\<lambda>r. regionStart r < regionEnd r) (blockRegions (scanSolidity filePath source))))"
    by (rule artifacts_calls_exact)
next
  show "list_all2
        (\<lambda>r d. scopeOf filePath (stripComments source) d r
               \<and> declared (definitions (extractSolidityArtifacts filePath source))
                    (stripComments source) d r)
        (blockRegions (scanSolidity filePath source)) (methodDeclarations (stripComments source))"
    by (rule list_all2_conjI[OF regions_scopeOf regions_declared])
next
  fix c assume "c \<in> set (calls (extractSolidityArtifacts filePath source))"
  then show "sourceId c \<noteq> generateId (str ''File'') filePath"
    by (rule artifacts_call_not_file)
next
  fix c assume "c \<in> set (calls (extractSolidityFeatures filePath content))"
  then show "sourceId c = generateId (str ''File'') filePath"
    by (simp add: extractSolidityFeatures_calls featureCalls_member)
qed

theorem calls_attributed_to_enclosing_body_witness:
  "calls (extractSolidityArtifacts aSol callsExample) =
     [\<lparr>calledName = str ''g'', sourceId = generateId (str ''Method'') (aSol @ str '':f'')\<rparr>]
   \<and> generateId (str ''Method'') (aSol @ str '':f'') \<noteq> generateId (str ''File'') aSol
   \<and> methodDeclarations callsExample = [(0, 13, str ''f'')]
   \<and> scopeOf aSol callsExample (0, 13, str ''f'')
        \<lparr>regionName = str ''f'', regionSourceId = generateId (str ''Method'') (aSol @ str '':f''),
         regionStart = 13, regionEnd = 29\<rparr>
   \<and> sourceId (hd (calls (extractSolidityFeatures aSol callsExample)))
       = generateId (str ''File'') aSol"
proof -
  note inst = calls_attributed_to_enclosing_body[where filePath = aSol and source = callsExample
      and content = callsExample]
  have "hd (calls (extractSolidityFeatures aSol callsExample))
      \<in> set (calls (extractSolidityFeatures aSol callsExample))"
    by (simp add: featureCalls_callsExample)
  with inst have 4: "sourceId (hd (calls (extractSolidityFeatures aSol callsExample)))
       = generateId (str ''File'') aSol"
    by blast
  let ?c = "\<lparr>calledName = str ''g'', sourceId = generateId (str ''Method'') (aSol @ str '':f'')\<rparr>"
  from inst have "calls (extractSolidityArtifacts aSol callsExample) =
     concat (map (\<lambda>r. map (\<lambda>m. \<lparr>calledName = snd m, sourceId = regionSourceId r\<rparr>)
                   (filter (\<lambda>m. snd m \<notin> set CALL_KEYWORDS \<and> snd m \<noteq> regionName r)
                      (matchAll callRe (scopeText (stripComments callsExample) r))))
       (filter (\<lambda>r. regionStart r < regionEnd r) (blockRegions (scanSolidity aSol callsExample))))"
    by blast
  then have 1: "calls (extractSolidityArtifacts aSol callsExample) = [?c]"
    by (simp add: strip_callsExample regions_callsExample scope_callsExample[simplified]
        body_callsExample CALL_KEYWORDS_def)
  then have "?c \<in> set (calls (extractSolidityArtifacts aSol callsExample))"
    by simp
  with inst have "sourceId ?c \<noteq> generateId (str ''File'') aSol"
    by blast
  then have 2: "generateId (str ''Method'') (aSol @ str '':f'') \<noteq> generateId (str ''File'') aSol"
    by simp
  from inst have "list_all2
        (\<lambda>r d. scopeOf aSol (stripComments callsExample) d r
               \<and> declared (definitions (extractSolidityArtifacts aSol callsExample))
                    (stripComments callsExample) d r)
        (blockRegions (scanSolidity aSol callsExample)) (methodDeclarations (stripComments callsExample))"
    by blast
  then have 3: "scopeOf aSol callsExample (0, 13, str ''f'')
        \<lparr>regionName = str ''f'', regionSourceId = generateId (str ''Method'') (aSol @ str '':f''),
         regionStart = 13, regionEnd = 29\<rparr>"
    by (simp add: strip_callsExample regions_callsExample declarations_callsExample)
  from 1 2 3 4 declarations_callsExample show ?thesis
    by blast
qed

text \<open>
  Claim C1, as stated, fails in both extractors. In \<^verbatim>\<open>function f(){function g(){h();}}\<close>
  the call site of \<open>h\<close> lies inside the body of \<open>g\<close>, which lies inside the body of \<open>f\<close>,
  and \<open>extractSolidityArtifacts\<close> records it twice, once with the id of the innermost
  definition \<open>g\<close> and once with the id of \<open>f\<close>. In \<^verbatim>\<open>function f(a{h (b}){g();}\<close> the
  declaration of \<open>f\<close> is matched up to its opening brace at index 19; the call site of \<open>h\<close>
  stands before it, in the parameter list, and is recorded for \<open>f\<close>, and the call site of
  \<open>g\<close> in the body is not recorded. In \<^verbatim>\<open>function f() { if (f()) g(); }\<close> the call site
  of \<open>g\<close> lies inside the body of \<open>f\<close>, and \<open>extractSolidityFeatures\<close> records it with
  the id of the File node.
\<close>

theorem calls_not_attributed_to_innermost_body:
  "blockRegions (scanSolidity aSol nestedExample) =
     [\<lparr>regionName = str ''f'',
       regionSourceId = generateId (str ''Method'') (aSol @ str '':f''),
       regionStart = 12, regionEnd = 31\<rparr>,
      \<lparr>regionName = str ''g'',
       regionSourceId = generateId (str ''Method'') (aSol @ str '':g''),
       regionStart = 25, regionEnd = 30\<rparr>]
   \<and> calls (extractSolidityArtifacts aSol nestedExample) =
     [\<lparr>calledName = str ''g'', sourceId = generateId (str ''Method'') (aSol @ str '':f'')\<rparr>,
      \<lparr>calledName = str ''h'', sourceId = generateId (str ''Method'') (aSol @ str '':f'')\<rparr>,
      \<lparr>calledName = str ''h'', sourceId = generateId (str ''Method'') (aSol @ str '':g'')\<rparr>]
   \<and> methodDeclarations parameterCallExample = [(0, 19, str ''f'')]
   \<and> blockRegions (scanSolidity aSol parameterCallExample) =
     [\<lparr>regionName = str ''f'',
       regionSourceId = generateId (str ''Method'') (aSol @ str '':f''),
       regionStart = 12, regionEnd = 17\<rparr>]
   \<and> calls (extractSolidityArtifacts aSol parameterCallExample) =
     [\<lparr>calledName = str ''h'', sourceId = generateId (str ''Method'') (aSol @ str '':f'')\<rparr>]
   \<and> calls (extractSolidityFeatures aSol callsExample) =
     [\<lparr>calledName = str ''f'', sourceId = generateId (str ''File'') aSol\<rparr>,
      \<lparr>calledName = str ''f'', sourceId = generateId (str ''File'') aSol\<rparr>,
      \<lparr>calledName = str ''g'', sourceId = generateId (str ''File'') aSol\<rparr>]"
  using regions_nestedExample calls_nestedExample declarations_parameterCallExample
    regions_parameterCallExample calls_parameterCallExample featureCalls_callsExample
  by blast

text \<open>
  Claim C2, as the code has it. No call record of a body names the enclosing definition
  itself or a word of \<open>CALL_KEYWORDS\<close>: this holds for the calls of every region and so
  for every call record of \<open>extractSolidityArtifacts\<close>. \<open>extractSolidityFeatures\<close> scans
  the file as a whole, knows no enclosing definition and leaves out the words of its
  \<open>KEYWORD_CALL_EXCLUSIONS\<close> only. Both sets hold \<open>if\<close>, \<open>for\<close>, \<open>require\<close>, \<open>return\<close> and
  \<open>new\<close>.
\<close>

theorem calls_exclude_own_name_and_keywords:
  "(\<forall>c \<in> set (regionCalls content region).
      calledName c \<noteq> regionName region \<and> calledName c \<notin> set CALL_KEYWORDS)
   \<and> (\<forall>c \<in> set (calls (extractSolidityArtifacts filePath source)).
        calledName c \<notin> set CALL_KEYWORDS
        \<and> (\<exists>r \<in> set (blockRegions (scanSolidity filePath source)).
              sourceId c = regionSourceId r \<and> calledName c \<noteq> regionName r))
   \<and> (\<forall>c \<in> set (calls (extractSolidityFeatures filePath source)).
        calledName c \<notin> set KEYWORD_CALL_EXCLUSIONS)
   \<and> set (map str [''if'', ''for'', ''require'', ''return'', ''new''])
        \<subseteq> set CALL_KEYWORDS \<inter> set KEYWORD_CALL_EXCLUSIONS"
proof (intro conjI ballI)
  fix c assume "c \<in> set (regionCalls content region)"
  from regionCalls_member[OF this]
  show "calledName c \<noteq> regionName region" and "calledName c \<notin> set CALL_KEYWORDS"
    by simp_all
next
  fix c assume a: "c \<in> set (calls (extractSolidityArtifacts filePath source))"
  from artifacts_call_region[OF a]
  obtain r where r: "r \<in> set (blockRegions (scanSolidity filePath source))"
    and c: "c \<in> set (regionCalls (stripComments source) r)"
    by blast
  from regionCalls_member[OF c] show "calledName c \<notin> set CALL_KEYWORDS" by simp
  from regionCalls_member[OF c] r
  show "\<exists>r \<in> set (blockRegions (scanSolidity filePath source)).
          sourceId c = regionSourceId r \<and> calledName c \<noteq> regionName r"
    by blast
next
  fix c assume "c \<in> set (calls (extractSolidityFeatures filePath source))"
  then show "calledName c \<notin> set KEYWORD_CALL_EXCLUSIONS"
    by (simp add: extractSolidityFeatures_calls featureCalls_member)
next
  show "set (map str [''if'', ''for'', ''require'', ''return'', ''new''])
        \<subseteq> set CALL_KEYWORDS \<inter> set KEYWORD_CALL_EXCLUSIONS"
    by (simp add: CALL_KEYWORDS_def KEYWORD_CALL_EXCLUSIONS_def)
qed

theorem calls_exclude_own_name_and_keywords_witness:
  "matchAll callRe (slice callsExample 13 30) = [(2, str ''if''), (6, str ''f''), (11, str ''g'')]
   \<and> map calledName (calls (extractSolidityArtifacts aSol callsExample)) = [str ''g'']
   \<and> str ''g'' \<notin> set CALL_KEYWORDS"
proof -
  let ?c = "\<lparr>calledName = str ''g'', sourceId = generateId (str ''Method'') (aSol @ str '':f'')\<rparr>"
  have "?c \<in> set (calls (extractSolidityArtifacts aSol callsExample))"
    by (simp add: calls_callsExample)
  with calls_exclude_own_name_and_keywords[where filePath = aSol and source = callsExample]
  have "calledName ?c \<notin> set CALL_KEYWORDS"
    by blast
  then show ?thesis
    by (simp add: calls_callsExample body_callsExample)
qed

text \<open>
  Claim C2, as stated, fails: in \<^verbatim>\<open>function f() { if (f()) g(); }\<close> the name \<open>f\<close> is
  that of the enclosing definition, and \<open>extractSolidityFeatures\<close> records it as a call,
  once for the signature and once for the body.
\<close>

theorem features_records_own_name:
  "map calledName (calls (extractSolidityFeatures aSol callsExample))
     = [str ''f'', str ''f'', str ''g'']"
  by (simp add: featureCalls_callsExample)

lemma firstBrace_is_brace:
  assumes "firstBrace content start k" "k \<le> brace"
    and "123 \<notin> set (take (brace - start) (drop start content))"
  shows "k = brace"
proof (rule ccontr)
  assume "k \<noteq> brace"
  with assms(2) have less: "k < brace" by simp
  from assms(1) have k: "start \<le> k" "k < length content" "content ! k = 123"
    by (simp_all add: firstBrace_def)
  from less k have d: "k - start < length content - start" "k - start < brace - start"
    by arith+
  then have l: "k - start < length (take (brace - start) (drop start content))"
    by simp
  from d k have "take (brace - start) (drop start content) ! (k - start) = 123"
    by simp
  with nth_mem[OF l] assms(3) show False by simp
qed

lemma scope_ends:
  assumes "scopeOf filePath (stripComments source) d r"
  shows "((\<forall>j. \<not> closesAt (stripComments source) (nat (regionStart r)) j)
            \<longrightarrow> regionEnd r = int (length source) - 1)
         \<and> (123 \<notin> set (take (fst (snd d) - fst d) (drop (fst d) (stripComments source)))
            \<longrightarrow> nat (regionStart r) = fst (snd d))
         \<and> (123 \<notin> set (take (fst (snd d) - fst d) (drop (fst d) (stripComments source)))
              \<and> (\<forall>j. \<not> closesAt (stripComments source) (fst (snd d)) j)
            \<longrightarrow> regionEnd r = int (length source) - 1)"
proof -
  have 1: "regionEnd r = int (length source) - 1"
    if "\<forall>j. \<not> closesAt (stripComments source) (nat (regionStart r)) j"
  proof -
    from that have "findBlockEnd (stripComments source) (nat (regionStart r))
        = int (length (stripComments source)) - 1"
      by (rule findBlockEnd_unmatched_aux)
    with assms show ?thesis
      by (cases d) (simp add: scopeOf_def length_stripComments)
  qed
  have 2: "nat (regionStart r) = fst (snd d)"
    if "123 \<notin> set (take (fst (snd d) - fst d) (drop (fst d) (stripComments source)))"
    using that assms by (cases d) (auto simp: scopeOf_def intro: firstBrace_is_brace)
  from 1 2 show ?thesis
    by metis
qed

lemma declarations_unclosedExample: "methodDeclarations unclosedExample = [(0, 13, str ''f'')]"
proof -
  have "matchAll modifierRe unclosedExample = []"
    by (simp add: unclosedExample_def re_defs modifierRe_def)
  moreover have "matchAll functionRe unclosedExample = [(0, str ''f'', [])]"
    by (simp add: unclosedExample_def re_defs functionRe_def signatureTail_def)
  moreover have "matchAll constructorRe unclosedExample = []"
    by (simp add: unclosedExample_def re_defs constructorRe_def signatureTail_def)
  moreover have "functionRe None unclosedExample = Some (14, str ''f'', [])"
    by (simp add: unclosedExample_def re_defs functionRe_def signatureTail_def)
  ultimately show ?thesis
    by (simp add: methodDeclarations_def matchLength_def before_def)
qed

text \<open>
  Claim C7, as the code has it. When no closing brace matches the brace at
  \<open>openBraceIndex\<close>, the brace scan returns the last index of the text. The extraction, a
  total function, gives every modifier, function and constructor declaration a Method
  definition and a scope; the scope starts at the first opening brace at or after the
  start of the declaration, and when no closing brace matches that brace it ends at the
  last index of the text. That brace is the opening brace of the declaration whenever no
  other opening brace stands between the start of the declaration and its opening brace;
  so the scope of such a declaration ends at the last index of the text when its opening
  brace has no matching closing brace.
\<close>

theorem unmatched_brace_ends_at_end_of_text:
  "((\<forall>j. \<not> closesAt source openBraceIndex j)
      \<longrightarrow> findBlockEnd source openBraceIndex = int (length source) - 1)
   \<and> list_all2
        (\<lambda>r d. scopeOf filePath (stripComments source) d r
               \<and> declared (definitions (extractSolidityArtifacts filePath source))
                    (stripComments source) d r
               \<and> ((\<forall>j. \<not> closesAt (stripComments source) (nat (regionStart r)) j)
                    \<longrightarrow> regionEnd r = int (length source) - 1)
               \<and> (123 \<notin> set (take (fst (snd d) - fst d) (drop (fst d) (stripComments source)))
                    \<longrightarrow> nat (regionStart r) = fst (snd d))
               \<and> (123 \<notin> set (take (fst (snd d) - fst d) (drop (fst d) (stripComments source)))
                      \<and> (\<forall>j. \<not> closesAt (stripComments source) (fst (snd d)) j)
                    \<longrightarrow> regionEnd r = int (length source) - 1))
        (blockRegions (scanSolidity filePath source)) (methodDeclarations (stripComments source))"
proof (intro conjI impI)
  assume "\<forall>j. \<not> closesAt source openBraceIndex j"
  then show "findBlockEnd source openBraceIndex = int (length source) - 1"
    by (rule findBlockEnd_unmatched_aux)
next
  have "list_all2
        (\<lambda>r d. scopeOf filePath (stripComments source) d r
               \<and> declared (definitions (extractSolidityArtifacts filePath source))
                    (stripComments source) d r)
        (blockRegions (scanSolidity filePath source)) (methodDeclarations (stripComments source))"
    by (rule list_all2_conjI[OF regions_scopeOf regions_declared])
  then show "list_all2
        (\<lambda>r d. scopeOf filePath (stripComments source) d r
               \<and> declared (definitions (extractSolidityArtifacts filePath source))
                    (stripComments source) d r
               \<and> ((\<forall>j. \<not> closesAt (stripComments source) (nat (regionStart r)) j)
                    \<longrightarrow> regionEnd r = int (length source) - 1)
               \<and> (123 \<notin> set (take (fst (snd d) - fst d) (drop (fst d) (stripComments source)))
                    \<longrightarrow> nat (regionStart r) = fst (snd d))
               \<and> (123 \<notin> set (take (fst (snd d) - fst d) (drop (fst d) (stripComments source)))
                      \<and> (\<forall>j. \<not> closesAt (stripComments source) (fst (snd d)) j)
                    \<longrightarrow> regionEnd r = int (length source) - 1))
        (blockRegions (scanSolidity filePath source)) (methodDeclarations (stripComments source))"
  proof (rule list_all2_mono)
    fix r :: BlockRegion and d
    assume a: "scopeOf filePath (stripComments source) d r
        \<and> declared (definitions (extractSolidityArtifacts filePath source)) (stripComments source) d r"
    with scope_ends[of filePath source d r]
    show "scopeOf filePath (stripComments source) d r
               \<and> declared (definitions (extractSolidityArtifacts filePath source))
                    (stripComments source) d r
               \<and> ((\<forall>j. \<not> closesAt (stripComments source) (nat (regionStart r)) j)
                    \<longrightarrow> regionEnd r = int (length source) - 1)
               \<and> (123 \<notin> set (take (fst (snd d) - fst d) (drop (fst d) (stripComments source)))
                    \<longrightarrow> nat (regionStart r) = fst (snd d))
               \<and> (123 \<notin> set (take (fst (snd d) - fst d) (drop (fst d) (stripComments source)))
                      \<and> (\<forall>j. \<not> closesAt (stripComments source) (fst (snd d)) j)
                    \<longrightarrow> regionEnd r = int (length source) - 1)"
      by blast
  qed
qed

theorem unmatched_brace_ends_at_end_of_text_witness:
  "findBlockEnd unclosedExample 13 = 16 \<and> length unclosedExample = 17
   \<and> methodDeclarations unclosedExample = [(0, 13, str ''f'')]
   \<and> blockRegions (scanSolidity aSol unclosedExample) =
       [\<lparr>regionName = str ''f'',
         regionSourceId = generateId (str ''Method'') (aSol @ str '':f''),
         regionStart = 13, regionEnd = 16\<rparr>]
   \<and> regionEnd (hd (blockRegions (scanSolidity aSol unclosedExample)))
       = int (length unclosedExample) - 1
   \<and> nat (regionStart (hd (blockRegions (scanSolidity aSol unclosedExample)))) = 13"
proof -
  note inst = unmatched_brace_ends_at_end_of_text[where source = unclosedExample
      and openBraceIndex = 13 and filePath = aSol]
  let ?r = "hd (blockRegions (scanSolidity aSol unclosedExample))"
  have len: "length unclosedExample = 17"
    by (simp add: unclosedExample_def)
  have un: "\<forall>j. \<not> closesAt unclosedExample 13 j"
    by (simp add: unclosedExample_unmatched)
  with inst have "findBlockEnd unclosedExample 13 = int (length unclosedExample) - 1"
    by blast
  with len have 1: "findBlockEnd unclosedExample 13 = 16"
    by simp
  have r: "nat (regionStart ?r) = 13"
    by (simp add: regions_unclosedExample)
  have nb: "123 \<notin> set (take (13 - 0) (drop 0 unclosedExample))"
    by (simp add: unclosedExample_def)
  from inst have "list_all2
        (\<lambda>r d. scopeOf aSol (stripComments unclosedExample) d r
               \<and> declared (definitions (extractSolidityArtifacts aSol unclosedExample))
                    (stripComments unclosedExample) d r
               \<and> ((\<forall>j. \<not> closesAt (stripComments unclosedExample) (nat (regionStart r)) j)
                    \<longrightarrow> regionEnd r = int (length unclosedExample) - 1)
               \<and> (123 \<notin> set (take (fst (snd d) - fst d) (drop (fst d) (stripComments unclosedExample)))
                    \<longrightarrow> nat (regionStart r) = fst (snd d))
               \<and> (123 \<notin> set (take (fst (snd d) - fst d) (drop (fst d) (stripComments unclosedExample)))
                      \<and> (\<forall>j. \<not> closesAt (stripComments unclosedExample) (fst (snd d)) j)
                    \<longrightarrow> regionEnd r = int (length unclosedExample) - 1))
        (blockRegions (scanSolidity aSol unclosedExample)) (methodDeclarations (stripComments unclosedExample))"
    by blast
  then have "(123 \<notin> set (take (13 - 0) (drop 0 unclosedExample)) \<longrightarrow> nat (regionStart ?r) = 13)
      \<and> (123 \<notin> set (take (13 - 0) (drop 0 unclosedExample))
            \<and> (\<forall>j. \<not> closesAt unclosedExample 13 j)
          \<longrightarrow> regionEnd ?r = int (length unclosedExample) - 1)"
    by (simp add: strip_unclosedExample regions_unclosedExample declarations_unclosedExample)
  with un nb have 2: "regionEnd ?r = int (length unclosedExample) - 1"
    and 3: "nat (regionStart ?r) = 13"
    by simp_all
  from 1 2 3 len declarations_unclosedExample regions_unclosedExample show ?thesis
    by blast
qed

text \<open>
  Claim C7, as stated, fails: in the text \<^verbatim>\<open>function f(a{b}){ g(); \<close> the declaration of
  \<open>f\<close> is matched from index 0 to its opening brace at index 16, and no closing brace
  follows that brace. The scope of \<open>f\<close> is taken from the first opening brace after the
  start of the declaration, the one at index 12 inside the parameter list: it ends at
  index 14 and not at the last index 22 of the text, and the call of \<open>g\<close> is not found.
\<close>

theorem unclosed_body_behind_parameter_brace:
  "methodDeclarations parameterBraceExample = [(0, 16, str ''f'')]
   \<and> parameterBraceExample ! 16 = 123 \<and> length parameterBraceExample = 23
   \<and> 125 \<notin> set (drop 16 parameterBraceExample)
   \<and> findBlockEnd parameterBraceExample 16 = 22
   \<and> blockRegions (scanSolidity aSol parameterBraceExample) =
       [\<lparr>regionName = str ''f'',
         regionSourceId = generateId (str ''Method'') (aSol @ str '':f''),
         regionStart = 12, regionEnd = 14\<rparr>]
   \<and> calls (extractSolidityArtifacts aSol parameterBraceExample) = []"
  using declarations_parameterBraceExample brace_parameterBraceExample
    regions_parameterBraceExample calls_parameterBraceExample by blast

section \<open>Identity of definitions\<close>














section \<open>Parent names\<close>

lemma rev_dropWhile_rev_Cons:
  "rev (dropWhile P (rev (a # x))) =
     (if \<forall>c \<in> set (a # x). P c then [] else a # rev (dropWhile P (rev x)))"
  by (auto simp: dropWhile_append)

lemma takeWhile_rev_dropWhile_rev:
  "takeWhile (\<lambda>c. \<not> P c) (rev (dropWhile P (rev x))) = takeWhile (\<lambda>c. \<not> P c) x"
proof (induction x)
  case Nil
  then show ?case by simp
next
  case (Cons a x)
  show ?case
    unfolding rev_dropWhile_rev_Cons using Cons by auto
qed

lemma trim_blank: "blank e \<Longrightarrow> trim e = []"
proof -
  assume "blank e"
  then have "dropWhile isSpace e = []"
    by (simp add: blank_def)
  then have "trim e = rev (dropWhile isSpace (rev []))"
    by (simp only: trim_def)
  then show ?thesis
    by simp
qed

lemma trim_nonblank:
  assumes "\<not> blank e"
  shows "trim e \<noteq> []"
proof -
  from assms obtain a x where e': "dropWhile isSpace e = a # x" and a: "\<not> isSpace a"
    by (metis blank_def dropWhile_eq_Nil_conv hd_dropWhile list.exhaust list.sel(1))
  have "trim e = rev (dropWhile isSpace (rev (a # x)))"
    by (simp add: trim_def e')
  also have "\<dots> \<noteq> []"
    unfolding rev_dropWhile_rev_Cons using a by simp
  finally show ?thesis .
qed

lemma firstSplitToken_trim:
  "firstSplitToken (trim e) = takeWhile (\<lambda>c. \<not> isSpace c) (dropWhile isSpace e)"
  by (simp add: firstSplitToken_def trim_def takeWhile_rev_dropWhile_rev)

lemma isFirstToken_trim:
  assumes "\<not> blank e"
  shows "isFirstToken (firstSplitToken (trim e)) e"
proof -
  let ?pre = "takeWhile isSpace e"
  let ?rest = "dropWhile isSpace e"
  let ?t = "takeWhile (\<lambda>c. \<not> isSpace c) ?rest"
  let ?post = "dropWhile (\<lambda>c. \<not> isSpace c) ?rest"
  from assms have rest: "?rest \<noteq> []" "\<not> isSpace (hd ?rest)"
    by (auto simp: blank_def hd_dropWhile)
  then have t: "?t \<noteq> []"
    by (cases ?rest) auto
  have no: "\<forall>c \<in> set ?t. \<not> isSpace c"
    by (auto dest: set_takeWhileD)
  have e: "e = ?pre @ ?t @ ?post"
    by simp
  have pre: "blank ?pre"
    by (auto simp: blank_def dest: set_takeWhileD)
  have post: "?post = [] \<or> isSpace (hd ?post)"
    using hd_dropWhile[of "\<lambda>c. \<not> isSpace c" ?rest] by auto
  from t no e pre post show ?thesis
    unfolding isFirstToken_def firstSplitToken_trim by blast
qed

lemma parents_first_tokens:
  "list_all2 (\<lambda>h e. className h = nm \<and> kind h = extends \<and> isFirstToken (parentName h) e)
     (map (\<lambda>parent. \<lparr>className = nm, parentName = firstSplitToken parent, kind = extends\<rparr>)
        (filter (\<lambda>p. p \<noteq> []) (map trim es)))
     (filter (\<lambda>e. \<not> blank e) es)"
proof (induction es)
  case Nil
  then show ?case by simp
next
  case (Cons e es)
  show ?case
  proof (cases "blank e")
    case True
    with Cons show ?thesis by (simp add: trim_blank)
  next
    case False
    with Cons show ?thesis by (simp add: trim_nonblank isFirstToken_trim)
  qed
qed

lemma heritageOfSuffix_first_tokens:
  "(case firstMatch isRe suffix of
      None \<Rightarrow> heritageOfSuffix nm suffix = []
    | Some m \<Rightarrow>
        list_all2 (\<lambda>h e. className h = nm \<and> kind h = extends \<and> isFirstToken (parentName h) e)
          (heritageOfSuffix nm suffix) (filter (\<lambda>e. \<not> blank e) (splitOn 44 (snd m))))"
  by (auto simp: heritageOfSuffix_def parents_first_tokens split: option.splits)

lemma trim_core:
  assumes "blank pre" "blank post" "x \<noteq> []" "\<not> isSpace (hd x)" "\<not> isSpace (last x)"
  shows "trim (pre @ x @ post) = x"
proof -
  from assms(3) obtain a y where x: "x = a # y" by (cases x) auto
  from assms(3) obtain z b where x': "x = z @ [b]" by (cases x rule: rev_cases) auto
  from assms(1,4) x have "dropWhile isSpace (pre @ x @ post) = x @ post"
    by (simp add: dropWhile_append blank_def)
  moreover from assms(2,5) x' have "dropWhile isSpace (rev post @ rev x) = rev x"
    by (simp add: dropWhile_append blank_def)
  ultimately show ?thesis
    by (simp add: trim_def)
qed

lemma collapseSpaces_nospace_prefix:
  "\<forall>c \<in> set t. \<not> isSpace c \<Longrightarrow> collapseSpaces (t @ s) = t @ collapseSpaces s"
  by (induction t) auto

lemma collapseSpaces_snoc:
  "\<not> isSpace c \<Longrightarrow> collapseSpaces (a @ [c]) = collapseSpaces a @ [c]"
proof (induction a rule: collapseSpaces.induct)
  case 1
  then show ?case by simp
next
  case (2 d ds)
  show ?case
  proof (cases "isSpace d")
    case True
    have "dropWhile isSpace (ds @ [c]) = dropWhile isSpace ds @ [c]"
      using "2.prems" by (simp add: dropWhile_append)
    with True 2 show ?thesis by simp
  next
    case False
    with 2 show ?thesis by simp
  qed
qed

lemma collapseSpaces_nonempty: "a \<noteq> [] \<Longrightarrow> collapseSpaces a \<noteq> []"
  by (cases a) auto

lemma lineTerminator_isSpace: "isLineTerminator c \<Longrightarrow> isSpace c"
  by (auto simp: isLineTerminator_def isSpace_def)

lemma collapseSpaces_no_lineTerminator:
  "c \<in> set (collapseSpaces a) \<Longrightarrow> \<not> isLineTerminator c"
proof (induction a rule: collapseSpaces.induct)
  case 1
  then show ?case by simp
next
  case (2 d ds)
  show ?case
  proof (cases "isSpace d")
    case True
    with 2 show ?thesis by (auto simp: isLineTerminator_def)
  next
    case False
    with 2 lineTerminator_isSpace[of d] show ?thesis by auto
  qed
qed

lemma argsTailRe_skip:
  "\<forall>c \<in> set t. c \<noteq> 40 \<Longrightarrow>
     \<exists>p'. matchAllFrom argsTailRe i p (t @ s) = matchAllFrom argsTailRe (i + length t) p' s"
proof (induction t arbitrary: i p)
  case Nil
  then show ?case by auto
next
  case (Cons a t)
  then have "argsTailRe p (a # t @ s) = None"
    by (simp add: argsTailRe_def)
  moreover from Cons obtain p' where
    "matchAllFrom argsTailRe (Suc i) (Some a) (t @ s) = matchAllFrom argsTailRe (Suc i + length t) p' s"
    by fastforce
  ultimately show ?case by auto
qed

lemma stripTrailingArgs_args:
  assumes "\<forall>c \<in> set t. c \<noteq> 40" "X \<noteq> []" "\<forall>c \<in> set X. \<not> isLineTerminator c"
  shows "stripTrailingArgs (t @ 40 # X @ [41]) = t"
proof -
  from argsTailRe_skip[OF assms(1), of 0 None "40 # X @ [41]"]
  obtain p' where
    p': "matchAll argsTailRe (t @ 40 # X @ [41]) = matchAllFrom argsTailRe (length t) p' (40 # X @ [41])"
    by (auto simp: matchAll_def)
  from assms(2) have "2 \<le> length (X @ [41])"
    by (cases X) auto
  with assms(3) have "argsTailRe p' (40 # X @ [41]) = Some (length (40 # X @ [41]), ())"
    by (simp add: argsTailRe_def)
  then obtain rest where "matchAllFrom argsTailRe (length t) p' (40 # X @ [41]) = (length t, ()) # rest"
    by simp
  with p' have "firstMatch argsTailRe (t @ 40 # X @ [41]) = Some (length t, ())"
    by (simp add: firstMatch_def)
  then show ?thesis
    by (simp add: stripTrailingArgs_def)
qed

lemma normalizeBaseName_args:
  assumes "blank pre" "blank post" "t \<noteq> []" "\<forall>c \<in> set t. \<not> isSpace c \<and> c \<noteq> 40" "args \<noteq> []"
  shows "normalizeBaseName (pre @ t @ 40 # args @ 41 # post) = t"
proof -
  have sp: "\<not> isSpace 40" "\<not> isSpace 41"
    by (simp_all add: isSpace_def)
  from assms(3,4) have hd: "\<not> isSpace (hd (t @ 40 # args @ [41]))"
    by (cases t) auto
  have "trim (pre @ (t @ 40 # args @ [41]) @ post) = t @ 40 # args @ [41]"
    using assms(1,2) hd sp by (intro trim_core) auto
  then have 1: "trim (pre @ t @ 40 # args @ 41 # post) = t @ 40 # args @ [41]"
    by simp
  have "collapseSpaces (t @ 40 # args @ [41]) = t @ collapseSpaces (40 # args @ [41])"
    using assms(4) by (intro collapseSpaces_nospace_prefix) simp
  also have "\<dots> = t @ 40 # collapseSpaces (args @ [41])"
    using sp by simp
  also have "\<dots> = t @ 40 # collapseSpaces args @ [41]"
    using sp by (simp add: collapseSpaces_snoc)
  finally have 2: "collapseSpaces (t @ 40 # args @ [41]) = t @ 40 # collapseSpaces args @ [41]" .
  have 3: "stripTrailingArgs (t @ 40 # collapseSpaces args @ [41]) = t"
    using assms(4,5) by (intro stripTrailingArgs_args)
      (auto simp: collapseSpaces_nonempty collapseSpaces_no_lineTerminator)
  from assms(3,4) have "\<not> isSpace (hd t)" "\<not> isSpace (last t)"
    by simp_all
  with assms(3) have "trim ([] @ t @ []) = t"
    by (intro trim_core) (simp_all add: blank_def)
  then have 4: "trim t = t" by simp
  show ?thesis
    by (simp only: normalizeBaseName_def 1 2 3 4)
qed

lemma basesHeritage_entries:
  "list_all2 (\<lambda>h e. className h = nm \<and> parentName h = normalizeBaseName e
                   \<and> kind h = (if knd = str ''interface'' then implements else extends))
     (basesHeritage knd nm bases)
     (filter (\<lambda>e. normalizeBaseName e \<noteq> []) (splitOn 44 bases))"
proof -
  have "\<And>es. list_all2 (\<lambda>h e. className h = nm \<and> parentName h = normalizeBaseName e
                   \<and> kind h = (if knd = str ''interface'' then implements else extends))
     (map (\<lambda>parent. \<lparr>className = nm, parentName = parent,
                     kind = (if knd = str ''interface'' then implements else extends)\<rparr>)
       (filter (\<lambda>p. p \<noteq> []) (map normalizeBaseName es)))
     (filter (\<lambda>e. normalizeBaseName e \<noteq> []) es)"
  proof -
    fix es show "?thesis es" by (induction es) auto
  qed
  then show ?thesis
    by (simp add: basesHeritage_def)
qed

lemma contracts_argsExample:
  "matchAll contractLikeRe argsExample = [(0, str ''contract'', str ''B'', str '' is A(1) '')]"
  by (simp add: argsExample_def re_defs contractLikeRe_def contractKind_def)

lemma is_argsExample: "firstMatch isRe (str '' is A(1) '') = Some (1, str ''A(1) '')"
  by (simp add: re_defs isRe_def)

lemma heritageOfSuffix_argsExample:
  "heritageOfSuffix (str ''B'') (str '' is A(1) '') =
     [\<lparr>className = str ''B'', parentName = str ''A(1)'', kind = extends\<rparr>]"
  by (simp add: heritageOfSuffix_def is_argsExample[simplified] trim_def firstSplitToken_def
      isSpace_def)

lemma strip_argsExample: "stripComments argsExample = argsExample"
  by (rule no_comment_unchanged)
    (simp_all add: argsExample_def matchBlockComment_def matchLineComment_def)

text \<open>The heritage records of the second extractor are those of its contract matches.\<close>

lemma pushDefinition_heritage [simp]:
  "heritage (pushDefinition filePath content lbl nm i e res) = heritage res"
  by (simp add: pushDefinition_def Let_def)

lemma normalizeBaseName_Nil: "normalizeBaseName [] = []"
  by (simp add: normalizeBaseName_def trim_def stripTrailingArgs_def firstMatch_def matchAll_def)

lemma basesHeritage_entries_eq:
  "basesHeritage knd nm b =
     map (\<lambda>e. \<lparr>className = nm, parentName = normalizeBaseName e,
                 kind = (if knd = str ''interface'' then implements else extends)\<rparr>)
       (filter (\<lambda>e. normalizeBaseName e \<noteq> []) (splitOn 44 b))"
  by (simp add: basesHeritage_def filter_map comp_def)

lemma contractStep_heritage:
  "heritage (contractStep filePath content m res) =
     heritage res @
       map (\<lambda>e. \<lparr>className = fst (snd (snd m)), parentName = normalizeBaseName e,
                   kind = (if fst (snd m) = str ''interface'' then implements else extends)\<rparr>)
         (filter (\<lambda>e. normalizeBaseName e \<noteq> [])
            (case snd (snd (snd m)) of None \<Rightarrow> [] | Some bases \<Rightarrow> splitOn 44 bases))"
proof -
  obtain i knd nm bases where m: "m = (i, knd, nm, bases)" by (cases m)
  show ?thesis
  proof (cases bases)
    case None
    with m show ?thesis by (simp add: contractStep_def Let_def)
  next
    case (Some b)
    show ?thesis
    proof (cases "b = []")
      case True
      with m Some show ?thesis
        by (simp add: contractStep_def Let_def normalizeBaseName_Nil)
    next
      case False
      with m Some show ?thesis
        by (simp add: contractStep_def Let_def basesHeritage_entries_eq)
    qed
  qed
qed

lemma fold_contractStep_heritage:
  "heritage (fold (contractStep filePath content) ms res) =
     heritage res @
       concat (map (\<lambda>m. map (\<lambda>e. \<lparr>className = fst (snd (snd m)), parentName = normalizeBaseName e,
                   kind = (if fst (snd m) = str ''interface'' then implements else extends)\<rparr>)
         (filter (\<lambda>e. normalizeBaseName e \<noteq> [])
            (case snd (snd (snd m)) of None \<Rightarrow> [] | Some bases \<Rightarrow> splitOn 44 bases))) ms)"
  by (induction ms arbitrary: res) (simp_all add: contractStep_heritage)

lemma fold_featureFunctionStep_heritage:
  "heritage (fold (featureFunctionStep filePath content) ms res) = heritage res"
  by (induction ms arbitrary: res) (simp_all add: featureFunctionStep_def split: prod.splits)

lemma fold_featureConstructorStep_heritage:
  "heritage (fold (featureConstructorStep filePath content) ms res) = heritage res"
  by (induction ms arbitrary: res) (simp_all add: featureConstructorStep_def)

lemma fold_featureNamedStep_heritage:
  "heritage (fold (featureNamedStep filePath content lbl e) ms res) = heritage res"
  by (induction ms arbitrary: res) (simp_all add: featureNamedStep_def)

lemma extractSolidityFeatures_heritage:
  "heritage (extractSolidityFeatures filePath content) =
     concat (map (\<lambda>m. map (\<lambda>e. \<lparr>className = fst (snd (snd m)), parentName = normalizeBaseName e,
                   kind = (if fst (snd m) = str ''interface'' then implements else extends)\<rparr>)
         (filter (\<lambda>e. normalizeBaseName e \<noteq> [])
            (case snd (snd (snd m)) of None \<Rightarrow> [] | Some bases \<Rightarrow> splitOn 44 bases)))
       (matchAll contractRegex content))"
  by (simp add: extractSolidityFeatures_def Let_def fold_contractStep_heritage
      fold_featureFunctionStep_heritage fold_featureConstructorStep_heritage
      fold_featureNamedStep_heritage)

lemma featureContracts_argsExample:
  "matchAll contractRegex argsExample = [(0, str ''contract'', str ''B'', Some (str ''A(1) ''))]"
  by (simp add: argsExample_def re_defs contractRegex_def contractKind3_def afterName_def
      isBases_def)

text \<open>
  Claim C8, as the code has it. The heritage records of \<open>extractSolidityArtifacts\<close> are
  those of its contract-like declarations; for a declaration whose suffix has an
  \<^verbatim>\<open>is\<close> clause there is one record for each comma-separated entry of the clause that
  is not blank, in their order, and its parent name is exactly the first
  white-space-separated token of the entry: an argument list written directly behind the
  name stays in the token. The heritage records of \<open>extractSolidityFeatures\<close> are those of
  its contract declarations: one for each comma-separated entry of the bases whose
  \<open>normalizeBaseName\<close> is not empty, with that as the parent name; for an entry that is a
  name free of white space and parentheses followed by a non-empty parenthesised argument
  list this is just the name.
\<close>

theorem parent_names_of_heritage:
  "heritage (extractSolidityArtifacts filePath source) =
     concat (map (\<lambda>m. heritageOfSuffix (fst (snd (snd m))) (snd (snd (snd m))))
       (matchAll contractLikeRe (stripComments source)))
   \<and> (firstMatch isRe suffix = None \<longrightarrow> heritageOfSuffix nm suffix = [])
   \<and> (firstMatch isRe suffix = Some (i, clause) \<longrightarrow>
        list_all2 (\<lambda>h e. className h = nm \<and> kind h = extends \<and> isFirstToken (parentName h) e)
          (heritageOfSuffix nm suffix) (filter (\<lambda>e. \<not> blank e) (splitOn 44 clause)))
   \<and> heritage (extractSolidityFeatures filePath content) =
        concat (map (\<lambda>m. map (\<lambda>e. \<lparr>className = fst (snd (snd m)), parentName = normalizeBaseName e,
                      kind = (if fst (snd m) = str ''interface'' then implements else extends)\<rparr>)
            (filter (\<lambda>e. normalizeBaseName e \<noteq> [])
               (case snd (snd (snd m)) of None \<Rightarrow> [] | Some bases \<Rightarrow> splitOn 44 bases)))
          (matchAll contractRegex content))
   \<and> (blank pre \<and> blank post \<and> t \<noteq> [] \<and> (\<forall>c \<in> set t. \<not> isSpace c \<and> c \<noteq> 40) \<and> args \<noteq> []
        \<longrightarrow> normalizeBaseName (pre @ t @ 40 # args @ 41 # post) = t)"
proof (intro conjI impI)
  show "heritage (extractSolidityArtifacts filePath source) =
     concat (map (\<lambda>m. heritageOfSuffix (fst (snd (snd m))) (snd (snd (snd m))))
       (matchAll contractLikeRe (stripComments source)))"
    by (simp add: extractSolidityArtifacts_fields scanSolidity_heritage)
next
  assume "firstMatch isRe suffix = None"
  then show "heritageOfSuffix nm suffix = []"
    by (simp add: heritageOfSuffix_def)
next
  assume "firstMatch isRe suffix = Some (i, clause)"
  with heritageOfSuffix_first_tokens[where suffix = suffix and nm = nm]
  show "list_all2 (\<lambda>h e. className h = nm \<and> kind h = extends \<and> isFirstToken (parentName h) e)
          (heritageOfSuffix nm suffix) (filter (\<lambda>e. \<not> blank e) (splitOn 44 clause))"
    by simp
next
  show "heritage (extractSolidityFeatures filePath content) =
        concat (map (\<lambda>m. map (\<lambda>e. \<lparr>className = fst (snd (snd m)), parentName = normalizeBaseName e,
                      kind = (if fst (snd m) = str ''interface'' then implements else extends)\<rparr>)
            (filter (\<lambda>e. normalizeBaseName e \<noteq> [])
               (case snd (snd (snd m)) of None \<Rightarrow> [] | Some bases \<Rightarrow> splitOn 44 bases)))
          (matchAll contractRegex content))"
    by (rule extractSolidityFeatures_heritage)
next
  assume "blank pre \<and> blank post \<and> t \<noteq> [] \<and> (\<forall>c \<in> set t. \<not> isSpace c \<and> c \<noteq> 40) \<and> args \<noteq> []"
  then show "normalizeBaseName (pre @ t @ 40 # args @ 41 # post) = t"
    by (intro normalizeBaseName_args) simp_all
qed

theorem parent_names_of_heritage_witness:
  "heritageOfSuffix (str ''B'') (str '' is A(1) '') =
     [\<lparr>className = str ''B'', parentName = str ''A(1)'', kind = extends\<rparr>]
   \<and> isFirstToken (str ''A(1)'') (str ''A(1) '')
   \<and> normalizeBaseName (str ''A(1) '') = str ''A''
   \<and> heritage (extractSolidityFeatures aSol argsExample) =
       [\<lparr>className = str ''B'', parentName = str ''A'', kind = extends\<rparr>]"
proof -
  note inst = parent_names_of_heritage[where suffix = "str '' is A(1) ''" and nm = "str ''B''"
      and i = "1::nat" and clause = "str ''A(1) ''" and pre = "[]" and post = "str '' ''"
      and t = "str ''A''" and args = "str ''1''" and filePath = aSol and content = argsExample]
  have s: "filter (\<lambda>e. \<not> blank e) (splitOn 44 (str ''A(1) '')) = [str ''A(1) '']"
    by (simp add: blank_def isSpace_def)
  from inst is_argsExample
  have "list_all2 (\<lambda>h e. className h = str ''B'' \<and> kind h = extends \<and> isFirstToken (parentName h) e)
          (heritageOfSuffix (str ''B'') (str '' is A(1) ''))
          (filter (\<lambda>e. \<not> blank e) (splitOn 44 (str ''A(1) '')))"
    by blast
  then have 1: "isFirstToken (str ''A(1)'') (str ''A(1) '')"
    unfolding s heritageOfSuffix_argsExample by simp
  have "blank [] \<and> blank (str '' '') \<and> str ''A'' \<noteq> []
      \<and> (\<forall>c \<in> set (str ''A''). \<not> isSpace c \<and> c \<noteq> 40) \<and> str ''1'' \<noteq> []"
    by (simp add: blank_def isSpace_def)
  with inst have "normalizeBaseName ([] @ str ''A'' @ 40 # str ''1'' @ 41 # str '' '') = str ''A''"
    by blast
  then have 2: "normalizeBaseName (str ''A(1) '') = str ''A''"
    by simp
  from inst have "heritage (extractSolidityFeatures aSol argsExample) =
        concat (map (\<lambda>m. map (\<lambda>e. \<lparr>className = fst (snd (snd m)), parentName = normalizeBaseName e,
                      kind = (if fst (snd m) = str ''interface'' then implements else extends)\<rparr>)
            (filter (\<lambda>e. normalizeBaseName e \<noteq> [])
               (case snd (snd (snd m)) of None \<Rightarrow> [] | Some bases \<Rightarrow> splitOn 44 bases)))
          (matchAll contractRegex argsExample))"
    by blast
  then have 3: "heritage (extractSolidityFeatures aSol argsExample) =
       [\<lparr>className = str ''B'', parentName = str ''A'', kind = extends\<rparr>]"
    using 2 by (simp add: featureContracts_argsExample)
  from 1 2 3 heritageOfSuffix_argsExample show ?thesis
    by blast
qed

text \<open>
  Claim C8, as stated, fails: in \<^verbatim>\<open>contract B is A(1) {}\<close> the parent is written with
  constructor arguments, and \<open>extractSolidityArtifacts\<close> records the parent name
  \<^verbatim>\<open>A(1)\<close>, not \<^verbatim>\<open>A\<close>.
\<close>

theorem artifacts_parent_keeps_arguments:
  "heritage (extractSolidityArtifacts aSol argsExample) =
     [\<lparr>className = str ''B'', parentName = str ''A(1)'', kind = extends\<rparr>]"
  by (simp add: extractSolidityArtifacts_fields scanSolidity_heritage strip_argsExample
      contracts_argsExample heritageOfSuffix_argsExample[simplified])

section \<open>The store\<close>

lemma initKuzu_storeInv: "storeInv st \<Longrightarrow> storeInv (snd (initKuzu env st))"
  by (auto simp: storeInv_def initKuzu_def Let_def)

lemma initKuzu_Returns_conn: "initKuzu env st = (Returns u, st') \<Longrightarrow> conn st' \<noteq> None"
  by (auto simp: initKuzu_def Let_def split: if_splits)

lemma loadGraphToKuzu_storeInv:
  "storeInv st \<Longrightarrow> storeInv (snd (loadGraphToKuzu env graph fileContents st))"
proof -
  assume a: "storeInv st"
  obtain r st' where i: "initKuzu (loadInit env) st = (r, st')" by (cases "initKuzu (loadInit env) st")
  with initKuzu_storeInv[OF a, of "loadInit env"] have s: "storeInv st'" by simp
  then have s': "storeInv (st'\<lparr>storeLoaded := True\<rparr>)"
    by (simp add: storeInv_def)
  from i s s' show ?thesis
    by (cases r) (auto simp: loadGraphToKuzu_def Let_def split: option.splits)
qed

lemma executeQuery_storeInv:
  "storeInv st \<Longrightarrow> storeInv (snd (executeQuery env cypher st))"
proof -
  assume a: "storeInv st"
  obtain r st' where i: "(if conn st = None then initKuzu (queryInit env) st else (Returns (), st)) = (r, st')"
    by (cases "if conn st = None then initKuzu (queryInit env) st else (Returns (), st)")
  have s: "storeInv st'"
    using i a initKuzu_storeInv[OF a, of "queryInit env"] by (auto split: if_splits)
  show ?thesis
  proof (cases r)
    case Throws
    with i s show ?thesis by (simp add: executeQuery_def)
  next
    case (Returns u)
    with i have "conn st' \<noteq> None"
      by (auto split: if_splits dest: initKuzu_Returns_conn)
    with s have "isKuzuReady st'"
      by (simp add: storeInv_def isKuzuReady_def)
    with s Returns i show ?thesis
      by (auto simp: executeQuery_def Let_def storeInv_def)
  qed
qed

lemma closeKuzu_storeInv: "storeInv st \<Longrightarrow> storeInv (closeKuzu st)"
  by (simp add: storeInv_def closeKuzu_def)

lemma step_storeInv: "storeInv st \<Longrightarrow> storeInv (step operation st)"
  by (cases operation)
    (simp_all add: initKuzu_storeInv loadGraphToKuzu_storeInv executeQuery_storeInv
      closeKuzu_storeInv)

lemma run_storeInv: "storeInv st \<Longrightarrow> storeInv (run ops st)"
  unfolding run_def by (rule fold_preserves) (auto intro: step_storeInv)

lemma initialState_storeInv: "storeInv initialState"
  by (simp add: storeInv_def initialState_def)

text \<open>
  Claim C9, as the code has it. In every sequence of operations from the initial state,
  \<open>executeQuery\<close> submits a query only while \<open>isKuzuReady\<close> holds, and a call of
  \<open>executeQuery\<close> submits its query exactly when it finds the connection set or its own
  call of \<open>initKuzu\<close> returns: a query issued while the store is not ready is not
  rejected, the store is initialised on the spot, and no completed load is asked for.
\<close>

theorem queries_run_on_initialised_store:
  "(\<forall>e \<in> set (queryLog (run ops initialState)). fst (snd e))
   \<and> (storeInv st \<longrightarrow>
        (queryLog (snd (executeQuery env cypher st)) = queryLog st @ [(cypher, True, storeLoaded (snd (executeQuery env cypher st)))]
          \<and> isKuzuReady (snd (executeQuery env cypher st)))
        \<or> (queryLog (snd (executeQuery env cypher st)) = queryLog st
            \<and> fst (executeQuery env cypher st) = Throws
            \<and> conn st = None \<and> fst (initKuzu (queryInit env) st) = Throws))"
proof (intro conjI impI)
  from run_storeInv[OF initialState_storeInv, of ops]
  show "\<forall>e \<in> set (queryLog (run ops initialState)). fst (snd e)"
    by (simp add: storeInv_def)
next
  assume a: "storeInv st"
  obtain r st' where i: "(if conn st = None then initKuzu (queryInit env) st else (Returns (), st)) = (r, st')"
    by (cases "if conn st = None then initKuzu (queryInit env) st else (Returns (), st)")
  have s: "storeInv st'"
    using i a initKuzu_storeInv[OF a, of "queryInit env"] by (auto split: if_splits)
  show "(queryLog (snd (executeQuery env cypher st)) = queryLog st @ [(cypher, True, storeLoaded (snd (executeQuery env cypher st)))]
          \<and> isKuzuReady (snd (executeQuery env cypher st)))
        \<or> (queryLog (snd (executeQuery env cypher st)) = queryLog st
            \<and> fst (executeQuery env cypher st) = Throws
            \<and> conn st = None \<and> fst (initKuzu (queryInit env) st) = Throws)"
  proof (cases r)
    case Throws
    with i have "conn st = None" "initKuzu (queryInit env) st = (Throws, st')"
      by (auto split: if_splits)
    moreover from this have "queryLog st' = queryLog st"
      by (auto simp: initKuzu_def Let_def split: if_splits)
    ultimately show ?thesis using Throws i
      by (simp add: executeQuery_def)
  next
    case (Returns u)
    with i have c: "conn st' \<noteq> None"
      by (auto split: if_splits dest: initKuzu_Returns_conn)
    with s have ready: "isKuzuReady st'"
      by (simp add: storeInv_def isKuzuReady_def)
    from i have "queryLog st' = queryLog st"
      by (auto simp: initKuzu_def Let_def split: if_splits)
    with ready Returns i show ?thesis
      by (auto simp: executeQuery_def Let_def isKuzuReady_def)
  qed
qed

theorem queries_run_on_initialised_store_witness:
  "queryLog (run [Query allQueryOk returnOne :: (nat, nat) operation] initialState)
     = [(returnOne, True, False)]
   \<and> fst (snd (hd (queryLog (run [Query allQueryOk returnOne :: (nat, nat) operation] initialState))))"
proof -
  have l: "queryLog (run [Query allQueryOk returnOne :: (nat, nat) operation] initialState)
     = [(returnOne, True, False)]"
    by (simp add: run_def executeQuery_def initKuzu_def initialState_def allQueryOk_def
        allInitOk_def isKuzuReady_def Let_def)
  then have "hd (queryLog (run [Query allQueryOk returnOne :: (nat, nat) operation] initialState))
      \<in> set (queryLog (run [Query allQueryOk returnOne :: (nat, nat) operation] initialState))"
    by simp
  with queries_run_on_initialised_store[where ops = "[Query allQueryOk returnOne :: (nat, nat) operation]"]
  have "fst (snd (hd (queryLog (run [Query allQueryOk returnOne :: (nat, nat) operation] initialState))))"
    by blast
  with l show ?thesis by blast
qed

text \<open>
  Claim C9, as stated, fails: in the initial state the store is not ready, and a query
  issued there is not rejected. \<open>executeQuery\<close> initialises the store, submits the query
  and returns its rows, and no load has completed at that moment.
\<close>

theorem query_before_ready_is_executed:
  "\<not> isKuzuReady initialState
   \<and> fst (executeQuery allQueryOk returnOne initialState) = Returns []
   \<and> queryLog (snd (executeQuery allQueryOk returnOne initialState))
       = [(returnOne, True, False)]"
  by (simp add: executeQuery_def initKuzu_def initialState_def allQueryOk_def
      allInitOk_def isKuzuReady_def Let_def)

text \<open>
  What the \<^verbatim>\<open>try\<close> of \<open>loadGraphToKuzu\<close> catches. When its call of \<open>initKuzu\<close> returns and
  any part of the bulk load fails, be it the serialization of the nodes or of the edges,
  the writing of a CSV file, a COPY, the count query or the reading of its row, it returns
  \<^verbatim>\<open>{ success: false, count: 0 }\<close> and does not throw; and in every case the graph it was
  given is the graph afterwards.
\<close>

lemma load_failure_inside_try_is_caught:
  "(fst (initKuzu (loadInit env) st) = Returns ()
     \<and> (generateNodeCSV env graph fileContents = None \<or> generateEdgeCSV env graph = None
        \<or> \<not> writeNodesOk env \<or> \<not> writeEdgesOk env \<or> \<not> copyNodesOk env \<or> \<not> copyEdgesOk env
        \<or> \<not> countQueryOk env \<or> \<not> getNextOk env)
     \<longrightarrow> fst (fst (loadGraphToKuzu env graph fileContents st))
           = Returns \<lparr>success = False, count = 0\<rparr>)
   \<and> snd (fst (loadGraphToKuzu env graph fileContents st)) = graph"
proof (intro conjI impI)
  assume a: "fst (initKuzu (loadInit env) st) = Returns ()
     \<and> (generateNodeCSV env graph fileContents = None \<or> generateEdgeCSV env graph = None
        \<or> \<not> writeNodesOk env \<or> \<not> writeEdgesOk env \<or> \<not> copyNodesOk env \<or> \<not> copyEdgesOk env
        \<or> \<not> countQueryOk env \<or> \<not> getNextOk env)"
  then obtain st' where i: "initKuzu (loadInit env) st = (Returns (), st')"
    by (cases "initKuzu (loadInit env) st") auto
  from a show "fst (fst (loadGraphToKuzu env graph fileContents st))
           = Returns \<lparr>success = False, count = 0\<rparr>"
    unfolding loadGraphToKuzu_def i by (auto simp: Let_def split: option.splits)
next
  obtain r st' where i: "initKuzu (loadInit env) st = (r, st')"
    by (cases "initKuzu (loadInit env) st")
  show "snd (fst (loadGraphToKuzu env graph fileContents st)) = graph"
    unfolding loadGraphToKuzu_def i
    by (cases r) (auto simp: Let_def split: option.splits)
qed

text \<open>A failure of \<open>initKuzu\<close> itself is outside the \<^verbatim>\<open>try\<close> and is thrown on.\<close>

lemma load_init_failure_throws:
  "fst (initKuzu (loadInit env) st) = Throws \<Longrightarrow>
     fst (fst (loadGraphToKuzu env graph fileContents st)) = Throws"
  by (cases "initKuzu (loadInit env) st") (auto simp: loadGraphToKuzu_def)


section \<open>The built graph\<close>

lemma set_map_filter_iff: "y \<in> set (List.map_filter f xs) \<longleftrightarrow> (\<exists>x \<in> set xs. f x = Some y)"
  by (induction xs) (auto split: option.splits)

lemma nodeId_fold_addNode:
  "nodeId ` set (fold addNode ns acc) = nodeId ` set acc \<union> nodeId ` set ns"
  by (induction ns arbitrary: acc) (auto simp: addNode_def)

lemma nodeIds_build:
  "nodeIds (build files)
     = nodeId ` set (map fileNode files @ map definitionNode (allDefinitions files))"
  by (simp add: nodeIds_def build_def nodeId_fold_addNode image_Un)

lemma fileId_in_build: "fr \<in> set files \<Longrightarrow> fileId (fst fr) \<in> nodeIds (build files)"
proof -
  assume "fr \<in> set files"
  then have m: "fileNode fr \<in> set (map fileNode files @ map definitionNode (allDefinitions files))"
    by simp
  have e: "nodeId (fileNode fr) = fileId (fst fr)"
    by (simp add: fileNode_def)
  have "nodeId (fileNode fr) \<in> nodeIds (build files)"
    unfolding nodeIds_build using m by (rule imageI)
  then show ?thesis
    unfolding e .
qed

lemma definitionId_in_build:
  "fd \<in> set (allDefinitions files) \<Longrightarrow> definitionId (fst fd) (snd fd) \<in> nodeIds (build files)"
proof -
  assume "fd \<in> set (allDefinitions files)"
  then have m: "definitionNode fd
      \<in> set (map fileNode files @ map definitionNode (allDefinitions files))"
    by simp
  have e: "nodeId (definitionNode fd) = definitionId (fst fd) (snd fd)"
    by (simp add: definitionNode_def)
  have "nodeId (definitionNode fd) \<in> nodeIds (build files)"
    unfolding nodeIds_build using m by (rule imageI)
  then show ?thesis
    unfolding e .
qed

lemma resolveName_in_index:
  assumes "resolveName index filePath nm = Some target"
  shows "\<exists>fd \<in> set index. target = definitionId (fst fd) (snd fd)"
proof -
  let ?cands = "filter (\<lambda>fd. name (snd fd) = nm) index"
  let ?same = "filter (\<lambda>fd. fst fd = filePath) ?cands"
  show ?thesis
  proof (cases ?same)
    case (Cons fd rest)
    then have "fd \<in> set ?same" by simp
    then have "fd \<in> set index" by simp
    moreover from assms Cons have "target = definitionId (fst fd) (snd fd)"
      by (simp add: resolveName_def Let_def)
    ultimately show ?thesis by blast
  next
    case Nil
    note same = this
    show ?thesis
    proof (cases ?cands)
      case Nil
      with assms same show ?thesis by (simp add: resolveName_def Let_def)
    next
      case (Cons fd rest)
      then have "fd \<in> set ?cands" by simp
      then have "fd \<in> set index" by simp
      moreover from assms same Cons have "target = definitionId (fst fd) (snd fd)"
        by (simp add: resolveName_def Let_def)
      ultimately show ?thesis by blast
    qed
  qed
qed

lemma resolveName_in_build:
  assumes "resolveName index filePath nm = Some target" "set index \<subseteq> set (allDefinitions files)"
  shows "target \<in> nodeIds (build files)"
proof -
  from resolveName_in_index[OF assms(1)] obtain fd where "fd \<in> set index"
    and t: "target = definitionId (fst fd) (snd fd)"
    by blast
  with assms(2) have "fd \<in> set (allDefinitions files)" by blast
  from definitionId_in_build[OF this] t show ?thesis by simp
qed

lemma allDefinitions_member:
  "fr \<in> set files \<Longrightarrow> d \<in> set (definitions (snd fr)) \<Longrightarrow> (fst fr, d) \<in> set (allDefinitions files)"
  by (auto simp: allDefinitions_def)

lemma allDefinitions_file:
  assumes "fd \<in> set (allDefinitions files)"
  shows "\<exists>fr \<in> set files. fst fr = fst fd"
proof -
  from assms obtain fr where f: "fr \<in> set files"
    and "fd \<in> set (map (\<lambda>d. (fst fr, d)) (definitions (snd fr)))"
    unfolding allDefinitions_def by auto
  then have "fst fr = fst fd" by auto
  with f show ?thesis by blast
qed

lemma containsEdges_ok:
  assumes "rel \<in> set (containsEdges files)"
  shows "relSourceId rel \<in> nodeIds (build files) \<and> relTargetId rel \<in> nodeIds (build files)"
proof -
  from assms obtain fd where fd: "fd \<in> set (allDefinitions files)"
    and rel: "relSourceId rel = fileId (fst fd)" "relTargetId rel = definitionId (fst fd) (snd fd)"
    by (auto simp: containsEdges_def)
  from allDefinitions_file[OF fd] obtain fr where "fr \<in> set files" "fst fr = fst fd"
    by blast
  with fileId_in_build[of fr files] definitionId_in_build[OF fd] rel show ?thesis
    by simp
qed

lemma callEdges_ok:
  assumes "callsOriginate files" "rel \<in> set (callEdges files)"
  shows "relSourceId rel \<in> nodeIds (build files) \<and> relTargetId rel \<in> nodeIds (build files)"
proof -
  from assms(2) obtain fr c target where f: "fr \<in> set files" and c: "c \<in> set (calls (snd fr))"
    and t: "resolveName (allDefinitions files) (fst fr) (calledName c) = Some target"
    and rel: "relSourceId rel = sourceId c" "relTargetId rel = target"
    by (auto simp: callEdges_def set_map_filter_iff)
  from resolveName_in_build[OF t] have "target \<in> nodeIds (build files)"
    by simp
  moreover have "sourceId c \<in> nodeIds (build files)"
  proof -
    from assms(1) f c consider "sourceId c = fileId (fst fr)"
      | d where "d \<in> set (definitions (snd fr))" "sourceId c = definitionId (fst fr) d"
      unfolding callsOriginate_def by blast
    then show ?thesis
    proof cases
      case 1
      with fileId_in_build[OF f] show ?thesis by simp
    next
      case 2
      with definitionId_in_build[OF allDefinitions_member[OF f 2(1)]] show ?thesis by simp
    qed
  qed
  ultimately show ?thesis using rel by simp
qed

lemma importEdges_ok:
  assumes "rel \<in> set (importEdges files)"
  shows "relSourceId rel \<in> nodeIds (build files) \<and> relTargetId rel \<in> nodeIds (build files)"
proof -
  from assms obtain fr raw where f: "fr \<in> set files"
    and s: "(let target = resolveImport (fst fr) raw in
             if target \<in> fst ` set files
             then Some \<lparr>relSourceId = fileId (fst fr), relTargetId = fileId target,
                        relType = IMPORTS\<rparr>
             else None) = Some rel"
    unfolding importEdges_def by (auto simp: set_map_filter_iff)
  from s have t: "resolveImport (fst fr) raw \<in> fst ` set files"
    and rel: "relSourceId rel = fileId (fst fr)"
      "relTargetId rel = fileId (resolveImport (fst fr) raw)"
    by (auto simp: Let_def split: if_splits)
  from t obtain fr' where "fr' \<in> set files" "resolveImport (fst fr) raw = fst fr'" by blast
  with fileId_in_build[OF f] fileId_in_build[of fr' files] rel show ?thesis
    by simp
qed

lemma heritageEdges_ok:
  assumes "rel \<in> set (heritageEdges files)"
  shows "relSourceId rel \<in> nodeIds (build files) \<and> relTargetId rel \<in> nodeIds (build files)"
proof -
  from assms obtain filePath h where "heritageEdge (classIndex files) filePath h = Some rel"
    unfolding heritageEdges_def by (auto simp: set_map_filter_iff)
  then obtain child parent where
    c: "resolveName (classIndex files) filePath (className h) = Some child"
    and p: "resolveName (classIndex files) filePath (parentName h) = Some parent"
    and rel: "relSourceId rel = child" "relTargetId rel = parent"
    by (auto simp: heritageEdge_def bind_eq_Some_conv)
  have sub: "set (classIndex files) \<subseteq> set (allDefinitions files)"
    by (auto simp: classIndex_def)
  from resolveName_in_build[OF c sub] resolveName_in_build[OF p sub] rel show ?thesis
    by simp
qed

lemma build_noDangling: "callsOriginate files \<Longrightarrow> noDangling (build files)"
proof -
  assume a: "callsOriginate files"
  have "relationships (build files)
      = remdups (containsEdges files @ callEdges files @ importEdges files @ heritageEdges files)"
    by (simp add: build_def)
  then show ?thesis
    unfolding noDangling_def
    using containsEdges_ok[of _ files] callEdges_ok[OF a] importEdges_ok[of _ files]
      heritageEdges_ok[of _ files]
    by auto
qed

lemma artifacts_callsOriginate:
  "callsOriginate (map (\<lambda>sf. (fst sf, extractSolidityArtifacts (fst sf) (snd sf))) sources)"
  unfolding callsOriginate_def
proof (intro ballI)
  fix fr c
  assume fr: "fr \<in> set (map (\<lambda>sf. (fst sf, extractSolidityArtifacts (fst sf) (snd sf))) sources)"
    and c: "c \<in> set (calls (snd fr))"
  from fr obtain source where s: "snd fr = extractSolidityArtifacts (fst fr) source"
    by auto
  from c s artifacts_call_region[of c "fst fr" source]
  obtain r where r: "r \<in> set (blockRegions (scanSolidity (fst fr) source))"
    and cr: "c \<in> set (regionCalls (stripComments source) r)"
    by auto
  from scanSolidity_scanInv[of "fst fr" source] r
  have ok: "regionOK (fst fr) (stripComments source) r"
    and has: "hasMethod (scanSolidity (fst fr) source) (regionName r)"
    by (auto simp: scanInv_def)
  from has obtain d where d: "d \<in> set (definitions (scanSolidity (fst fr) source))"
    and ld: "label d = str ''Method''" "name d = regionName r"
    unfolding hasMethod_def by blast
  from regionCalls_member[OF cr] ok ld
  have "sourceId c = definitionId (fst fr) d"
    by (simp add: regionOK_def definitionId_def)
  moreover from d s have "d \<in> set (definitions (snd fr))"
    by (simp add: extractSolidityArtifacts_fields)
  ultimately show "sourceId c = fileId (fst fr)
      \<or> (\<exists>d \<in> set (definitions (snd fr)). sourceId c = definitionId (fst fr) d)"
    by blast
qed

lemma callsOriginate_exampleFiles: "callsOriginate exampleFiles"
  by (simp add: callsOriginate_def exampleFiles_def definitionId_def fileId_def generateId_def)

lemma relationships_exampleFiles:
  "map (\<lambda>rel. (relSourceId rel, relType rel, relTargetId rel)) (relationships (build exampleFiles)) =
     [(NodeId (str ''File'') (str ''a.sol''), CONTAINS, NodeId (str ''Class'') (str ''a.sol:A'')),
      (NodeId (str ''File'') (str ''a.sol''), CONTAINS, NodeId (str ''Method'') (str ''a.sol:f'')),
      (NodeId (str ''File'') (str ''b.sol''), CONTAINS, NodeId (str ''Class'') (str ''b.sol:B'')),
      (NodeId (str ''File'') (str ''b.sol''), CONTAINS, NodeId (str ''Method'') (str ''b.sol:g'')),
      (NodeId (str ''Method'') (str ''a.sol:f''), CALLS, NodeId (str ''Method'') (str ''b.sol:g'')),
      (NodeId (str ''Class'') (str ''b.sol:B''), EXTENDS, NodeId (str ''Class'') (str ''a.sol:A''))]"
  by (simp add: build_def exampleFiles_def containsEdges_def callEdges_def importEdges_def
      heritageEdges_def heritageEdge_def classIndex_def allDefinitions_def resolveName_def
      definitionId_def fileId_def generateId_def Let_def)

lemma nodes_exampleFiles:
  "map nodeId (nodes (build exampleFiles)) =
     [NodeId (str ''File'') (str ''a.sol''), NodeId (str ''File'') (str ''b.sol''),
      NodeId (str ''Class'') (str ''a.sol:A''), NodeId (str ''Method'') (str ''a.sol:f''),
      NodeId (str ''Class'') (str ''b.sol:B''), NodeId (str ''Method'') (str ''b.sol:g'')]"
  by (simp add: build_def exampleFiles_def allDefinitions_def addNode_def fileNode_def
      definitionNode_def definitionId_def fileId_def generateId_def)

text \<open>
  Claim C4. In the graph that the Graph Builder makes of extraction results whose calls
  come with the id of their originating node, the File node or a definition of their
  file, every relationship has its source and its target among the nodes of the graph.
  The results of \<open>extractSolidityArtifacts\<close> are of this kind, so the graph built from the
  extraction of any list of files has no dangling relationship.
\<close>

theorem built_graph_has_no_dangling_edges:
  "(callsOriginate files \<longrightarrow>
      (\<forall>rel \<in> set (relationships (build files)).
         relSourceId rel \<in> nodeIds (build files) \<and> relTargetId rel \<in> nodeIds (build files)))
   \<and> noDangling (build (map (\<lambda>sf. (fst sf, extractSolidityArtifacts (fst sf) (snd sf))) sources))"
proof (intro conjI impI)
  assume "callsOriginate files"
  from build_noDangling[OF this]
  show "\<forall>rel \<in> set (relationships (build files)).
         relSourceId rel \<in> nodeIds (build files) \<and> relTargetId rel \<in> nodeIds (build files)"
    by (simp add: noDangling_def)
next
  show "noDangling (build (map (\<lambda>sf. (fst sf, extractSolidityArtifacts (fst sf) (snd sf))) sources))"
    by (rule build_noDangling[OF artifacts_callsOriginate])
qed

theorem built_graph_has_no_dangling_edges_witness:
  "map relType (relationships (build exampleFiles))
     = [CONTAINS, CONTAINS, CONTAINS, CONTAINS, CALLS, EXTENDS]
   \<and> length (nodes (build exampleFiles)) = 6
   \<and> relSourceId (relationships (build exampleFiles) ! 4) \<in> nodeIds (build exampleFiles)
   \<and> relTargetId (relationships (build exampleFiles) ! 4) \<in> nodeIds (build exampleFiles)"
proof -
  have len: "length (relationships (build exampleFiles)) = 6"
    using arg_cong[OF relationships_exampleFiles, of length] by simp
  then have "relationships (build exampleFiles) ! 4 \<in> set (relationships (build exampleFiles))"
    by simp
  with built_graph_has_no_dangling_edges[where files = exampleFiles] callsOriginate_exampleFiles
  have "relSourceId (relationships (build exampleFiles) ! 4) \<in> nodeIds (build exampleFiles)
      \<and> relTargetId (relationships (build exampleFiles) ! 4) \<in> nodeIds (build exampleFiles)"
    by blast
  moreover have "map relType (relationships (build exampleFiles))
     = [CONTAINS, CONTAINS, CONTAINS, CONTAINS, CALLS, EXTENDS]"
    using arg_cong[OF relationships_exampleFiles, of "map (\<lambda>t. fst (snd t))"]
    by (simp add: comp_def)
  moreover have "length (nodes (build exampleFiles)) = 6"
    using arg_cong[OF nodes_exampleFiles, of length] by simp
  ultimately show ?thesis by blast
qed

end
